theory Spec2Isabelle
  imports Main "HOL-Library.AList"
begin

section \<open>Values, objects and strings\<close>

text \<open>
  The scaffolding command of \<^verbatim>\<open>src/lib/base.js\<close> is embedded function by function.
  A JavaScript string is a \<^typ>\<open>string\<close>: the list of the bytes of its UTF-8 encoding.
  Every character the placeholder pattern looks at (backslash, braces, blank, the word
  characters) is ASCII and no byte of a longer UTF-8 sequence is, so scanning the bytes
  finds the matches that scanning the code units finds.

  The values that questions, defaults, filters and answers carry are the primitive ones
  below, and the members that every object inherits from \<^verbatim>\<open>Object.prototype\<close>; numbers
  and other objects are left out. The variable scope and the question mapping are the
  finite map or the association list of the properties they define themselves:
  \<^verbatim>\<open>obj.hasOwnProperty(key)\<close> is membership of the key, and their keys are ordinary
  names, not the name of an inherited member. \<^verbatim>\<open>fileMapping\<close> is indexed with any file
  name, so its lookup \<open>getProp\<close> follows the prototype chain.
\<close>

datatype jsval = Undefined | Null | Bool bool | Str string | Member string

fun truthy :: "jsval \<Rightarrow> bool" where
  "truthy Undefined = False"
| "truthy Null = False"
| "truthy (Bool b) = b"
| "truthy (Str s) = (s \<noteq> [])"
| "truthy (Member n) = True"

text \<open>
  The names that a plain object inherits from \<^verbatim>\<open>Object.prototype\<close>. \<open>Member n\<close> is the
  inherited member of that name: a built-in function, but for \<^verbatim>\<open>__proto__\<close>, which is the
  prototype object itself. \<open>memberText\<close> is what \<^verbatim>\<open>toString()\<close> gives for it.
\<close>

definition objectPrototype :: "string list" where
  "objectPrototype =
     [''constructor'', ''__defineGetter__'', ''__defineSetter__'', ''hasOwnProperty'',
      ''__lookupGetter__'', ''__lookupSetter__'', ''isPrototypeOf'', ''propertyIsEnumerable'',
      ''toString'', ''valueOf'', ''__proto__'', ''toLocaleString'']"

definition memberText :: "string \<Rightarrow> string" where
  "memberText n =
     (if n = ''__proto__'' then ''[object Object]''
      else if n = ''constructor'' then ''function Object() { [native code] }''
      else ''function '' @ n @ ''() { [native code] }'')"

fun ToString :: "jsval \<Rightarrow> string" where
  "ToString Undefined = ''undefined''"
| "ToString Null = ''null''"
| "ToString (Bool b) = (if b then ''true'' else ''false'')"
| "ToString (Str s) = s"
| "ToString (Member n) = memberText n"

text \<open>\<^verbatim>\<open>a || b\<close>\<close>

definition jsOr :: "jsval \<Rightarrow> jsval \<Rightarrow> jsval" where
  "jsOr a b = (if truthy a then a else b)"

text \<open>
  \<^verbatim>\<open>obj[key]\<close> on a plain object whose own properties are the association list: an own
  property first, then an inherited member, \<^verbatim>\<open>undefined\<close> otherwise.
\<close>

definition getProp :: "(string \<times> jsval) list \<Rightarrow> string \<Rightarrow> jsval" where
  "getProp obj key =
     (case map_of obj key of
        Some v \<Rightarrow> v
      | None \<Rightarrow> if key \<in> set objectPrototype then Member key else Undefined)"

type_synonym scope = "string \<rightharpoonup> jsval"

section \<open>replaceTemplate\<close>

text \<open>
  \<^verbatim>\<open>content.toString().replace(/(\\)?{{ *(\w+) *}}/g, (block, skip, key) => ...)\<close>

  The pattern is: an optional backslash, two opening braces, blanks, one or more word
  characters, blanks, two closing braces. The three character classes are disjoint and
  none contains a brace, so each greedy quantifier takes the longest run and giving
  characters back never turns a failure into a match: \<open>takeWhile\<close> and \<open>dropWhile\<close>.
\<close>

definition backslash :: char where
  "backslash = CHR 0x5C"

definition isSpace :: "char \<Rightarrow> bool" where
  "isSpace c \<longleftrightarrow> c = CHR '' ''"

text \<open>\<^verbatim>\<open>\w\<close> is \<^verbatim>\<open>[A-Za-z0-9_]\<close>.\<close>

definition isWordChar :: "char \<Rightarrow> bool" where
  "isWordChar c \<longleftrightarrow>
     (let n = (of_char c :: nat)
      in (48 \<le> n \<and> n \<le> 57) \<or> (65 \<le> n \<and> n \<le> 90) \<or> n = 95 \<or> (97 \<le> n \<and> n \<le> 122))"

fun stripPrefix :: "string \<Rightarrow> string \<Rightarrow> string option" where
  "stripPrefix [] s = Some s"
| "stripPrefix (p # ps) [] = None"
| "stripPrefix (p # ps) (c # cs) = (if p = c then stripPrefix ps cs else None)"

text \<open>
  The part of the pattern after the optional backslash, tried at the head of \<open>s\<close>:
  the matched text, the captured name and the rest of the input.
\<close>

definition matchBraces :: "string \<Rightarrow> (string \<times> string \<times> string) option" where
  "matchBraces s =
     (case stripPrefix ''{{'' s of
        None \<Rightarrow> None
      | Some r \<Rightarrow>
          let sp1 = takeWhile isSpace r; r1 = dropWhile isSpace r;
              key = takeWhile isWordChar r1; r2 = dropWhile isWordChar r1;
              sp2 = takeWhile isSpace r2; r3 = dropWhile isSpace r2
          in if key = [] then None
             else (case stripPrefix ''}}'' r3 of
                     None \<Rightarrow> None
                   | Some rest \<Rightarrow> Some (''{{'' @ sp1 @ key @ sp2 @ ''}}'', key, rest)))"

text \<open>
  The whole pattern at the head of \<open>s\<close>. The group \<^verbatim>\<open>(\\)?\<close> first takes a backslash
  when there is one; when the rest then fails, the pattern is tried again with the group
  left out. The result is the capture \<open>skip\<close>, the matched \<open>block\<close>, the \<open>key\<close> and the
  rest of the input.
\<close>

definition matchAt :: "string \<Rightarrow> (string option \<times> string \<times> string \<times> string) option" where
  "matchAt s =
     (case (case stripPrefix [backslash] s of
              None \<Rightarrow> None
            | Some r \<Rightarrow>
                map_option (\<lambda>(b, k, rest). (Some [backslash], backslash # b, k, rest))
                  (matchBraces r)) of
        Some m \<Rightarrow> Some m
      | None \<Rightarrow> map_option (\<lambda>(b, k, rest). (None, b, k, rest)) (matchBraces s))"

text \<open>
  A global replace walks the input from left to right: where the pattern matches, the match
  is handed to the callback and the walk goes on behind it; where it does not, one
  character is copied.
\<close>

datatype piece = Lit char | Match "string option" string string

lemma stripPrefix_Some: "stripPrefix p s = Some r \<Longrightarrow> s = p @ r"
  by (induction p s rule: stripPrefix.induct) (auto split: if_splits)

lemma matchBraces_Some: "matchBraces s = Some (b, k, rest) \<Longrightarrow> s = b @ rest \<and> b \<noteq> []"
  unfolding matchBraces_def
  by (auto simp: Let_def split: option.splits if_splits dest!: stripPrefix_Some)
    (metis takeWhile_dropWhile_id)

lemma matchAt_Some: "matchAt s = Some (sk, b, k, rest) \<Longrightarrow> s = b @ rest \<and> b \<noteq> []"
  unfolding matchAt_def
  by (auto split: option.splits dest!: stripPrefix_Some matchBraces_Some)

function scan :: "string \<Rightarrow> piece list" where
  "scan s =
     (case matchAt s of
        Some (skip, block, key, rest) \<Rightarrow> Match skip block key # scan rest
      | None \<Rightarrow> (case s of [] \<Rightarrow> [] | c # cs \<Rightarrow> Lit c # scan cs))"
  by pat_completeness auto
termination
  by (relation "measure length") (auto dest!: matchAt_Some)

declare scan.simps [simp del]

text \<open>
  The callback:
  \<^verbatim>\<open>if (skip) return block.substring(skip.length);
  return scope.hasOwnProperty(key) ? scope[key] : block;\<close>
  and \<open>replace\<close> turns what it returns into a string.
\<close>

definition replacer :: "scope \<Rightarrow> piece \<Rightarrow> string" where
  "replacer scope p =
     (case p of
        Lit c \<Rightarrow> [c]
      | Match skip block key \<Rightarrow>
          (case skip of
             Some sk \<Rightarrow> drop (length sk) block
           | None \<Rightarrow> (case scope key of Some v \<Rightarrow> ToString v | None \<Rightarrow> block)))"

definition replaceTemplate :: "string \<Rightarrow> scope \<Rightarrow> string" where
  "replaceTemplate content scope = concat (map (replacer scope) (scan content))"

text \<open>A placeholder token: a string the brace pattern matches as a whole.\<close>

definition placeholder :: "string \<Rightarrow> string \<Rightarrow> bool" where
  "placeholder T k \<longleftrightarrow> matchBraces T = Some (T, k, [])"

text \<open>The text a piece of the walk stands for.\<close>

fun pieceText :: "piece \<Rightarrow> string" where
  "pieceText (Lit c) = [c]"
| "pieceText (Match skip block key) = block"

text \<open>
  A string is settled for a scope when the walk finds no escaped placeholder in it and no
  placeholder whose name the scope defines.
\<close>

definition settled :: "scope \<Rightarrow> string \<Rightarrow> bool" where
  "settled S s \<longleftrightarrow>
     list_all (\<lambda>p. case p of Lit c \<Rightarrow> True | Match skip block key \<Rightarrow> skip = None \<and> S key = None)
       (scan s)"

text \<open>The string contains a backslash followed by two opening braces.\<close>

fun containsEscape :: "string \<Rightarrow> bool" where
  "containsEscape [] = False"
| "containsEscape (c # cs) = ((c = backslash \<and> take 2 cs = ''{{'') \<or> containsEscape cs)"

section \<open>The path mapper\<close>

text \<open>
  \<^verbatim>\<open>this.fileMapping = { gitignore: '.gitignore', _gitignore: '.gitignore',
    '_.gitignore': '.gitignore', '_package.json': 'package.json',
    '_.eslintignore': '.eslintignore', '_.npmignore': '.npmignore' }\<close>
\<close>

definition fileMapping :: "(string \<times> jsval) list" where
  "fileMapping =
     [(''gitignore'', Str ''.gitignore''),
      (''_gitignore'', Str ''.gitignore''),
      (''_.gitignore'', Str ''.gitignore''),
      (''_package.json'', Str ''package.json''),
      (''_.eslintignore'', Str ''.eslintignore''),
      (''_.npmignore'', Str ''.npmignore'')]"

text \<open>
  \<^verbatim>\<open>this.replaceTemplate(this.fileMapping[file] || file, locals)\<close>: the path of the
  destination below the target directory. \<open>replaceTemplate\<close> starts with
  \<^verbatim>\<open>content.toString()\<close>, and for a file whose name is that of an inherited member the
  content is that member.
\<close>

definition destName :: "string \<Rightarrow> scope \<Rightarrow> string" where
  "destName file locals =
     replaceTemplate (ToString (jsOr (getProp fileMapping file) (Str file))) locals"

text \<open>
  A boundary is a text that starts with a character no unfinished match can take in: not a
  blank, not a word character, not a closing brace, and an opening brace only as the first
  of two.
\<close>

definition boundary :: "string \<Rightarrow> bool" where
  "boundary X \<longleftrightarrow>
     (case X of
        [] \<Rightarrow> False
      | c # cs \<Rightarrow> \<not> isSpace c \<and> \<not> isWordChar c \<and> c \<noteq> CHR ''}'' \<and>
                 (c = CHR ''{'' \<longrightarrow> (case cs of [] \<Rightarrow> False | d # ds \<Rightarrow> d = CHR ''{'')))"

section \<open>The host: paths, the file system, modules and prompts\<close>

text \<open>
  What the command gets from Node and from its libraries is modelled as simply as the
  command uses it. A path is absolute and normalised: the list of its segments below the
  root. The file system is an association list from paths to nodes; a directory is listed
  with a node of its own.
\<close>

type_synonym path = "string list"

datatype node = File string | Dir

type_synonym fsys = "(path \<times> node) list"

text \<open>
  What a \<^verbatim>\<open>throw\<close> hands to a \<^verbatim>\<open>catch\<close> clause: an error object with its
  \<^verbatim>\<open>err.code\<close> and \<^verbatim>\<open>err.message\<close>, or a value that is no object
  (\<^verbatim>\<open>throw null\<close>, \<^verbatim>\<open>throw 'text'\<close>). Reading a property of \<^verbatim>\<open>null\<close> or of
  \<^verbatim>\<open>undefined\<close> throws the \<^verbatim>\<open>TypeError\<close> \<open>cannotRead\<close>, an error object without a
  code; a property \<^verbatim>\<open>code\<close> or \<^verbatim>\<open>message\<close> of any other value of \<^typ>\<open>jsval\<close> is
  \<^verbatim>\<open>undefined\<close>.
\<close>

datatype jserror = JsError jsval jsval | Thrown jsval

definition cannotRead :: "jsval \<Rightarrow> string \<Rightarrow> jserror" where
  "cannotRead v name =
     JsError Undefined
       (Str (''Cannot read properties of '' @ ToString v @ '' (reading '' @ CHR 0x27 # name @
          CHR 0x27 # '')''))"

fun splitOn :: "char \<Rightarrow> string \<Rightarrow> string list" where
  "splitOn d [] = [[]]"
| "splitOn d (c # cs) =
     (if c = d then [] # splitOn d cs
      else (case splitOn d cs of [] \<Rightarrow> [[c]] | x # xs \<Rightarrow> (c # x) # xs))"

text \<open>
  Normalisation drops empty segments and \<open>.\<close> and climbs at \<open>..\<close>, staying at the root
  there. The segments already passed are kept in reverse.
\<close>

fun normalize :: "path \<Rightarrow> string list \<Rightarrow> path" where
  "normalize acc [] = rev acc"
| "normalize acc (s # ss) =
     (if s = [] \<or> s = ''.'' then normalize acc ss
      else if s = ''..'' then normalize (tl acc) ss
      else normalize (s # acc) ss)"

text \<open>\<^verbatim>\<open>path.join(base, rel)\<close> for a path \<open>base\<close>\<close>

definition path_join :: "path \<Rightarrow> string \<Rightarrow> path" where
  "path_join base rel = normalize (rev base) (splitOn CHR ''/'' rel)"

text \<open>\<^verbatim>\<open>path.resolve(this.cwd, p)\<close>\<close>

definition path_resolve :: "path \<Rightarrow> string \<Rightarrow> path" where
  "path_resolve base p =
     (if take 1 p = ''/'' then normalize [] (splitOn CHR ''/'' p)
      else normalize (rev base) (splitOn CHR ''/'' p))"

definition path_dirname :: "path \<Rightarrow> path" where
  "path_dirname p = butlast p"

definition path_basename :: "path \<Rightarrow> string" where
  "path_basename p = (if p = [] then [] else last p)"

fun joinSegs :: "string list \<Rightarrow> string" where
  "joinSegs [] = []"
| "joinSegs [s] = s"
| "joinSegs (s # t # ss) = s @ CHR ''/'' # joinSegs (t # ss)"

text \<open>The path as a string, for the functions that take a file name.\<close>

definition render :: "path \<Rightarrow> string" where
  "render p = CHR ''/'' # joinSegs p"

definition nodeAt :: "fsys \<Rightarrow> path \<Rightarrow> node option" where
  "nodeAt fs p = (if p = [] then Some Dir else map_of fs p)"

definition existsSync :: "fsys \<Rightarrow> path \<Rightarrow> bool" where
  "existsSync fs p \<longleftrightarrow> nodeAt fs p \<noteq> None"

text \<open>\<^verbatim>\<open>fs.statSync(p).isDirectory()\<close>, called on existing paths only.\<close>

definition isDirectory :: "fsys \<Rightarrow> path \<Rightarrow> bool" where
  "isDirectory fs p \<longleftrightarrow> nodeAt fs p = Some Dir"

definition isFile :: "fsys \<Rightarrow> path \<Rightarrow> bool" where
  "isFile fs p \<longleftrightarrow> (case nodeAt fs p of Some (File d) \<Rightarrow> True | _ \<Rightarrow> False)"

text \<open>The names of the entries of a directory.\<close>

definition readdirSync :: "fsys \<Rightarrow> path \<Rightarrow> string list" where
  "readdirSync fs p = remdups (map last (filter (\<lambda>q. q \<noteq> [] \<and> butlast q = p) (map fst fs)))"

text \<open>
  \<^verbatim>\<open>mkdirp.sync(p)\<close> makes the directory and every missing directory above it, and
  throws where a part of the path is a file.
\<close>

fun mkdirpFrom :: "fsys \<Rightarrow> path \<Rightarrow> string list \<Rightarrow> jserror + fsys" where
  "mkdirpFrom fs pre [] = Inr fs"
| "mkdirpFrom fs pre (s # ss) =
     (case nodeAt fs (pre @ [s]) of
        Some (File d) \<Rightarrow>
          Inl (JsError (Str (if ss = [] then ''EEXIST'' else ''ENOTDIR'')) (Str (render (pre @ [s]))))
      | Some Dir \<Rightarrow> mkdirpFrom fs (pre @ [s]) ss
      | None \<Rightarrow> mkdirpFrom (AList.update (pre @ [s]) Dir fs) (pre @ [s]) ss)"

definition mkdirp_sync :: "fsys \<Rightarrow> path \<Rightarrow> jserror + fsys" where
  "mkdirp_sync fs p = mkdirpFrom fs [] p"

definition readFileSync :: "fsys \<Rightarrow> path \<Rightarrow> jserror + string" where
  "readFileSync fs p =
     (case nodeAt fs p of
        Some (File d) \<Rightarrow> Inr d
      | Some Dir \<Rightarrow> Inl (JsError (Str ''EISDIR'') (Str (render p)))
      | None \<Rightarrow> Inl (JsError (Str ''ENOENT'') (Str (render p))))"

text \<open>\<^verbatim>\<open>fs.writeFileSync(p, d)\<close> makes the file or overwrites it.\<close>

definition writeFileSync :: "fsys \<Rightarrow> path \<Rightarrow> string \<Rightarrow> jserror + fsys" where
  "writeFileSync fs p d =
     (if nodeAt fs p = Some Dir then Inl (JsError (Str ''EISDIR'') (Str (render p)))
      else (case nodeAt fs (path_dirname p) of
              Some Dir \<Rightarrow> Inr (AList.update p (File d) fs)
            | Some (File x) \<Rightarrow> Inl (JsError (Str ''ENOTDIR'') (Str (render p)))
            | None \<Rightarrow> Inl (JsError (Str ''ENOENT'') (Str (render p)))))"

text \<open>
  \<^verbatim>\<open>glob.sync('**/*', { cwd: src, dot: true })\<close>: the files, not the directories, at any
  depth below \<open>src\<close>, dotfiles too, as paths relative to \<open>src\<close>.
\<close>

definition glob_sync :: "fsys \<Rightarrow> path \<Rightarrow> string list" where
  "glob_sync fs base =
     map (\<lambda>q. joinSegs (drop (length base) q))
       (filter (\<lambda>q. length base < length q \<and> take (length base) q = base \<and> isFile fs q)
          (remdups (map fst fs)))"

subsection \<open>Questions\<close>

text \<open>
  A default is a value or a function of the scope, a filter is a function of the value; both
  functions are the template's code and may throw. A question without a default has the
  default \<open>Literal Undefined\<close>, and \<open>qfilter\<close> is \<open>None\<close> where \<^verbatim>\<open>filter\<close> is not a function.
  The question mapping lists the entries of the object in the order of \<^verbatim>\<open>Object.keys\<close>.
\<close>

datatype dflt = Literal jsval | Derived "scope \<Rightarrow> jserror + jsval"

record question =
  qtype :: jsval
  description :: jsval
  desc :: jsval
  qdefault :: dflt
  qfilter :: "(jsval \<Rightarrow> jserror + jsval) option"
  choices :: "string list option"

type_synonym questions = "(string \<times> question) list"

text \<open>A question as it is handed to \<^verbatim>\<open>inquirer.prompt\<close>.\<close>

record prompt =
  ptype :: jsval
  pname :: string
  pmessage :: jsval
  pdefault :: dflt
  pfilter :: "(jsval \<Rightarrow> jserror + jsval) option"
  pchoices :: "string list option"

subsection \<open>The command and what it leaves behind\<close>

text \<open>
  The lines the command logs and the messages \<open>validate\<close> returns are kept by what they
  say, not as formatted and coloured text.
\<close>

datatype message =
    LoadTrouble jsval
  | Collecting
  | UseDefault scope
  | WriteTo path
  | AlreadyFile path
  | NotEmpty path "string list"
  | Override path
  | TargetDir path

text \<open>
  What the user sees: a logged line, the questions of the template put to the user, or the
  question for another target directory (with the default it offers).
\<close>

datatype event = Log message | Asked "prompt list" | AskedDir string

record argv =
  positional :: jsval
  dir :: jsval
  force :: bool
  silent :: bool

record command =
  argv :: argv
  cwd :: path

text \<open>
  \<^verbatim>\<open>require(templateDir)\<close> gives the question mapping or a function of the command that
  returns it.
\<close>

datatype source = Static questions | Computed "command \<Rightarrow> jserror + questions"

text \<open>
  The collaborators: the module loader, the prompt (the answers the user gives to a list of
  questions), the text classifier \<^verbatim>\<open>isTextOrBinary.isTextSync(name, bytes)\<close>, and
  \<^verbatim>\<open>content.toString('utf8')\<close>, which is the identity on well-formed UTF-8.
\<close>

record host =
  requireModule :: "path \<Rightarrow> jserror + source"
  inquirerPrompt :: "prompt list \<Rightarrow> jserror + scope"
  isTextSync :: "string \<Rightarrow> string \<Rightarrow> bool"
  toStringUtf8 :: "string \<Rightarrow> string"

record world =
  fsys :: fsys
  events :: "event list"

definition log :: "message \<Rightarrow> world \<Rightarrow> world" where
  "log m w = w\<lparr>events := events w @ [Log m]\<rparr>"

section \<open>askForVariable\<close>

definition truthyDefault :: "dflt \<Rightarrow> bool" where
  "truthyDefault d = (case d of Literal v \<Rightarrow> truthy v | Derived f \<Rightarrow> True)"

text \<open>\<^verbatim>\<open>.replace(/^egg-/, '')\<close>\<close>

definition stripEgg :: "string \<Rightarrow> string" where
  "stripEgg s = (case stripPrefix ''egg-'' s of Some r \<Rightarrow> r | None \<Rightarrow> s)"

text \<open>
  \<^verbatim>\<open>if (questions.name && !questions.name.default)
    questions.name.default = path.basename(targetDir).replace(/^egg-/, '');\<close>
\<close>

definition nameDefault :: "path \<Rightarrow> questions \<Rightarrow> questions" where
  "nameDefault targetDir qs =
     (case map_of qs ''name'' of
        None \<Rightarrow> qs
      | Some q \<Rightarrow>
          if \<not> truthyDefault (qdefault q)
          then AList.update ''name''
                 (q\<lparr>qdefault := Literal (Str (stripEgg (path_basename targetDir)))\<rparr>) qs
          else qs)"

text \<open>The body of the \<^verbatim>\<open>try\<close> block: \<open>Inl\<close> is what the \<^verbatim>\<open>catch\<close> clause receives.\<close>

definition loadQuestions :: "host \<Rightarrow> command \<Rightarrow> path \<Rightarrow> path \<Rightarrow> jserror + questions" where
  "loadQuestions h cmd targetDir templateDir =
     (case requireModule h templateDir of
        Inl err \<Rightarrow> Inl err
      | Inr (Static qs) \<Rightarrow> Inr (nameDefault targetDir qs)
      | Inr (Computed f) \<Rightarrow>
          (case f cmd of
             Inl err \<Rightarrow> Inl err
           | Inr qs \<Rightarrow> Inr (nameDefault targetDir qs)))"

text \<open>
  One round of \<^verbatim>\<open>keys.reduce((result, key) => { ... }, {})\<close>:
  \<^verbatim>\<open>if (typeof defaultFn === 'function') result[key] = defaultFn(result) || '';
  else result[key] = questions[key].default || '';
  if (typeof filterFn === 'function') result[key] = filterFn(result[key]) || '';\<close>
  An exception of the template's functions ends the reduction.
\<close>

definition silentStep :: "(jserror + scope) \<Rightarrow> string \<times> question \<Rightarrow> jserror + scope" where
  "silentStep acc kq =
     (case acc of
        Inl err \<Rightarrow> Inl err
      | Inr result \<Rightarrow>
          (case kq of (key, q) \<Rightarrow>
             (case (case qdefault q of
                      Derived defaultFn \<Rightarrow>
                        (case defaultFn result of
                           Inl err \<Rightarrow> Inl err
                         | Inr v \<Rightarrow> Inr (jsOr v (Str [])))
                    | Literal v \<Rightarrow> Inr (jsOr v (Str []))) of
                Inl err \<Rightarrow> Inl err
              | Inr v \<Rightarrow>
                  (case qfilter q of
                     Some filterFn \<Rightarrow>
                       (case filterFn v of
                          Inl err \<Rightarrow> Inl err
                        | Inr v' \<Rightarrow> Inr (result(key \<mapsto> jsOr v' (Str []))))
                   | None \<Rightarrow> Inr (result(key \<mapsto> v))))))"

definition toPrompt :: "string \<times> question \<Rightarrow> prompt" where
  "toPrompt kq =
     (case kq of (key, q) \<Rightarrow>
        \<lparr>ptype = jsOr (qtype q) (Str ''input''), pname = key,
         pmessage = jsOr (description q) (desc q), pdefault = qdefault q,
         pfilter = qfilter q, pchoices = choices q\<rparr>)"

definition askForVariable ::
  "host \<Rightarrow> command \<Rightarrow> path \<Rightarrow> path \<Rightarrow> world \<Rightarrow> jserror + scope \<times> world" where
  "askForVariable h cmd targetDir templateDir w =
     (case loadQuestions h cmd targetDir templateDir of
        Inl (JsError code msg) \<Rightarrow>
          Inr (Map.empty, if code \<noteq> Str ''MODULE_NOT_FOUND'' then log (LoadTrouble msg) w else w)
      | Inl (Thrown v) \<Rightarrow>
          if v = Undefined \<or> v = Null then Inl (cannotRead v ''code'')
          else Inr (Map.empty, log (LoadTrouble Undefined) w)
      | Inr qs \<Rightarrow>
          let w1 = log Collecting w
          in if silent (argv cmd)
             then (case foldl silentStep (Inr Map.empty) qs of
                     Inl err \<Rightarrow> Inl err
                   | Inr result \<Rightarrow> Inr (result, log (UseDefault result) w1))
             else (case inquirerPrompt h (map toPrompt qs) of
                     Inl err \<Rightarrow> Inl err
                   | Inr answers \<Rightarrow>
                       Inr (answers, w1\<lparr>events := events w1 @ [Asked (map toPrompt qs)]\<rparr>)))"

section \<open>getTargetDirectory\<close>

datatype validation = Valid | Invalid message

text \<open>\<^verbatim>\<open>name => name[0] !== '.'\<close>\<close>

definition visible :: "string \<Rightarrow> bool" where
  "visible name = (case name of [] \<Rightarrow> True | c # cs \<Rightarrow> c \<noteq> CHR ''.'')"

text \<open>The closure \<^verbatim>\<open>validate\<close>; \<open>forced\<close> is \<^verbatim>\<open>this.argv.force\<close>.\<close>

definition validate :: "bool \<Rightarrow> path \<Rightarrow> world \<Rightarrow> jserror + validation \<times> world" where
  "validate forced d w =
     (if \<not> existsSync (fsys w) d
      then (case mkdirp_sync (fsys w) d of
              Inl err \<Rightarrow> Inl err
            | Inr fs' \<Rightarrow> Inr (Valid, w\<lparr>fsys := fs'\<rparr>))
      else if \<not> isDirectory (fsys w) d
      then Inr (Invalid (AlreadyFile d), w)
      else let files = filter visible (readdirSync (fsys w) d)
           in if length files > 0
              then (if forced then Inr (Valid, log (Override d) w)
                    else Inr (Invalid (NotEmpty d files), w))
              else Inr (Valid, w))"

text \<open>
  The prompt for another directory reads the lines the user types until one passes
  \<open>validate\<close>; an empty line stands for the default. The result is \<open>None\<close> when the lines run
  out: the prompt is still waiting.
\<close>

fun promptDir ::
  "command \<Rightarrow> string \<Rightarrow> string list \<Rightarrow> world \<Rightarrow> (jserror + path \<times> world) option" where
  "promptDir cmd deflt [] w = None"
| "promptDir cmd deflt (line # lines) w =
     (let answer = path_resolve (cwd cmd) (if line = [] then deflt else line)
      in case validate (force (argv cmd)) answer w of
           Inl err \<Rightarrow> Some (Inl err)
         | Inr (Valid, w') \<Rightarrow> Some (Inr (answer, w'))
         | Inr (Invalid m, w') \<Rightarrow> promptDir cmd deflt lines w')"

text \<open>\<^verbatim>\<open>String(this.argv._[0] || this.argv.dir || '')\<close>\<close>

definition argDir :: "command \<Rightarrow> string" where
  "argDir cmd = ToString (jsOr (jsOr (positional (argv cmd)) (dir (argv cmd))) (Str []))"

definition requested :: "command \<Rightarrow> path" where
  "requested cmd = path_resolve (cwd cmd) (argDir cmd)"

definition getTargetDirectory ::
  "command \<Rightarrow> string list \<Rightarrow> world \<Rightarrow> (jserror + path \<times> world) option" where
  "getTargetDirectory cmd typed w =
     (let targetDir = requested cmd
      in case validate (force (argv cmd)) targetDir w of
           Inl err \<Rightarrow> Some (Inl err)
         | Inr (Valid, w1) \<Rightarrow> Some (Inr (targetDir, log (TargetDir targetDir) w1))
         | Inr (Invalid m, w1) \<Rightarrow>
             (let deflt = ToString (jsOr (Str (argDir cmd)) (Str ''.''));
                  w2 = log m w1;
                  w3 = w2\<lparr>events := events w2 @ [AskedDir deflt]\<rparr>
              in case promptDir cmd deflt typed w3 of
                   None \<Rightarrow> None
                 | Some (Inl err) \<Rightarrow> Some (Inl err)
                 | Some (Inr (answer, w4)) \<Rightarrow> Some (Inr (answer, log (TargetDir answer) w4))))"

section \<open>processFiles\<close>

text \<open>
  \<^verbatim>\<open>const to = path.join(targetDir, this.replaceTemplate(this.fileMapping[file] || file, locals));\<close>
\<close>

definition destination :: "path \<Rightarrow> scope \<Rightarrow> string \<Rightarrow> path" where
  "destination targetDir locals file = path_join targetDir (destName file locals)"

text \<open>The body of \<^verbatim>\<open>files.forEach(file => { ... })\<close>; an exception ends the walk.\<close>

definition processFile ::
  "host \<Rightarrow> path \<Rightarrow> path \<Rightarrow> scope \<Rightarrow> (jserror + world) \<Rightarrow> string \<Rightarrow> jserror + world" where
  "processFile h src targetDir locals acc file =
     (case acc of
        Inl err \<Rightarrow> Inl err
      | Inr w \<Rightarrow>
          let from = path_join src file;
              to = destination targetDir locals file
          in (case readFileSync (fsys w) from of
                Inl err \<Rightarrow> Inl err
              | Inr content \<Rightarrow>
                  let w1 = log (WriteTo to) w;
                      result = (if isTextSync h (render from) content
                                then replaceTemplate (toStringUtf8 h content) locals
                                else content)
                  in (case mkdirp_sync (fsys w1) (path_dirname to) of
                        Inl err \<Rightarrow> Inl err
                      | Inr fs1 \<Rightarrow>
                          (case writeFileSync fs1 to result of
                             Inl err \<Rightarrow> Inl err
                           | Inr fs2 \<Rightarrow> Inr (w1\<lparr>fsys := fs2\<rparr>)))))"

definition processFiles ::
  "host \<Rightarrow> command \<Rightarrow> path \<Rightarrow> path \<Rightarrow> world \<Rightarrow> jserror + string list \<times> world" where
  "processFiles h cmd targetDir templateDir w =
     (let src = path_join templateDir ''boilerplate''
      in case askForVariable h cmd targetDir templateDir w of
           Inl err \<Rightarrow> Inl err
         | Inr (locals, w1) \<Rightarrow>
             (let files = glob_sync (fsys w1) src
              in case foldl (processFile h src targetDir locals) (Inr w1) files of
                   Inl err \<Rightarrow> Inl err
                 | Inr w2 \<Rightarrow> Inr (files, w2)))"

section \<open>What the specification says, as functions\<close>

text \<open>The regular files of a file system, by path.\<close>

definition filesOf :: "fsys \<Rightarrow> path \<rightharpoonup> string" where
  "filesOf fs p = (case nodeAt fs p of Some (File d) \<Rightarrow> Some d | _ \<Rightarrow> None)"

text \<open>
  The content of the destination: the decoded text with the placeholders substituted where
  the classifier takes the bytes for text, the bytes themselves otherwise.
\<close>

definition rendered :: "host \<Rightarrow> scope \<Rightarrow> string \<Rightarrow> string \<Rightarrow> string" where
  "rendered h locals name content =
     (if isTextSync h name content then replaceTemplate (toStringUtf8 h content) locals
      else content)"

text \<open>
  Materialisation as the specification describes it, on the regular files alone: for each
  enumerated file, in order, read the source and write one destination file. It is \<open>None\<close>
  when a source cannot be read.
\<close>

fun materialize ::
  "host \<Rightarrow> path \<Rightarrow> path \<Rightarrow> scope \<Rightarrow> string list \<Rightarrow> (path \<rightharpoonup> string) \<Rightarrow> (path \<rightharpoonup> string) option"
  where
  "materialize h src targetDir locals [] m = Some m"
| "materialize h src targetDir locals (f # files) m =
     (case m (path_join src f) of
        None \<Rightarrow> None
      | Some content \<Rightarrow>
          materialize h src targetDir locals files
            (m(destination targetDir locals f \<mapsto>
                 rendered h locals (render (path_join src f)) content)))"

text \<open>
  Silent resolution in the words of the specification: the value of a question is its
  default, called on the scope built so far when it is a function and taken as it is
  otherwise, then filtered when the question has a filter; the empty string is the value of
  a question without a default.
\<close>

definition statedSilentValue :: "question \<Rightarrow> scope \<Rightarrow> jserror + jsval" where
  "statedSilentValue q sofar =
     (case (case qdefault q of
              Derived f \<Rightarrow> f sofar
            | Literal v \<Rightarrow> Inr (if v = Undefined then Str [] else v)) of
        Inl err \<Rightarrow> Inl err
      | Inr v \<Rightarrow> (case qfilter q of None \<Rightarrow> Inr v | Some g \<Rightarrow> g v))"

fun statedSilentScope :: "questions \<Rightarrow> scope \<Rightarrow> jserror + scope" where
  "statedSilentScope [] sofar = Inr sofar"
| "statedSilentScope ((key, q) # rest) sofar =
     (case statedSilentValue q sofar of
        Inl err \<Rightarrow> Inl err
      | Inr v \<Rightarrow> statedSilentScope rest (sofar(key \<mapsto> v)))"

text \<open>
  Silent resolution, amended. A value that is \<^verbatim>\<open>undefined\<close>, \<^verbatim>\<open>null\<close>, \<^verbatim>\<open>false\<close> or
  the empty string gives way to the empty string. The value of a question, given the scope
  built so far: the default, called on that scope when it is a function, gives way to the
  empty string in these four cases; the filter, when there is one, is applied to the
  outcome, and its result gives way likewise.
\<close>

definition falsy :: "jsval \<Rightarrow> bool" where
  "falsy v \<longleftrightarrow> v = Undefined \<or> v = Null \<or> v = Bool False \<or> v = Str []"

definition orEmpty :: "jsval \<Rightarrow> jsval" where
  "orEmpty v = (if falsy v then Str [] else v)"

definition specSilentValue :: "question \<Rightarrow> scope \<Rightarrow> jserror + jsval" where
  "specSilentValue q sofar =
     (case (case qdefault q of Derived f \<Rightarrow> f sofar | Literal v \<Rightarrow> Inr v) of
        Inl err \<Rightarrow> Inl err
      | Inr v \<Rightarrow>
          (case qfilter q of
             None \<Rightarrow> Inr (orEmpty v)
           | Some g \<Rightarrow>
               (case g (orEmpty v) of
                  Inl err \<Rightarrow> Inl err
                | Inr v' \<Rightarrow> Inr (orEmpty v'))))"

fun specSilentScope :: "questions \<Rightarrow> scope \<Rightarrow> jserror + scope" where
  "specSilentScope [] sofar = Inr sofar"
| "specSilentScope ((key, q) # rest) sofar =
     (case specSilentValue q sofar of
        Inl err \<Rightarrow> Inl err
      | Inr v \<Rightarrow> specSilentScope rest (sofar(key \<mapsto> v)))"

text \<open>The value that a resolution gives to a key.\<close>

definition resolved :: "string \<Rightarrow> jserror + scope \<times> world \<Rightarrow> jsval option" where
  "resolved key r = (case r of Inl err \<Rightarrow> None | Inr (result, w) \<Rightarrow> result key)"

definition statedResolved :: "string \<Rightarrow> jserror + scope \<Rightarrow> jsval option" where
  "statedResolved key r = (case r of Inl err \<Rightarrow> None | Inr result \<Rightarrow> result key)"

text \<open>What a run leaves below the target directory, next to the files it enumerated.\<close>

definition outputsOf ::
  "path \<Rightarrow> jserror + string list \<times> world \<Rightarrow> jserror + string list \<times> string list" where
  "outputsOf targetDir r =
     (case r of Inl err \<Rightarrow> Inl err | Inr (files, w) \<Rightarrow> Inr (files, glob_sync (fsys w) targetDir))"

section \<open>Sample hosts and worlds\<close>

definition plain :: "dflt \<Rightarrow> question" where
  "plain d = \<lparr>qtype = Undefined, description = Undefined, desc = Undefined, qdefault = d,
     qfilter = None, choices = None\<rparr>"

text \<open>A classifier that takes bytes without a zero byte for text.\<close>

definition sniff :: "string \<Rightarrow> string \<Rightarrow> bool" where
  "sniff name bytes \<longleftrightarrow> CHR 0x00 \<notin> set bytes"

definition hostWith :: "(jserror + source) \<Rightarrow> host" where
  "hostWith m = \<lparr>requireModule = (\<lambda>p. m), inquirerPrompt = (\<lambda>ps. Inr Map.empty),
     isTextSync = sniff, toStringUtf8 = (\<lambda>b. b)\<rparr>"

text \<open>The template asks for \<open>name\<close> and offers \<open>World\<close>.\<close>

definition worldHost :: host where
  "worldHost = hostWith (Inr (Static [(''name'', plain (Literal (Str ''World'')))]))"

text \<open>
  \<^verbatim>\<open>{ a: { default: 'base' }, b: { default: scope => scope.a + 'x' } }\<close>
\<close>

definition abHost :: host where
  "abHost = hostWith (Inr (Static
     [(''a'', plain (Literal (Str ''base''))),
      (''b'', plain (Derived (\<lambda>sc. Inr (Str (ToString (case sc ''a'' of Some v \<Rightarrow> v | None \<Rightarrow> Undefined) @ ''x'')))))]))"

text \<open>\<^verbatim>\<open>{ flag: { type: 'confirm', default: false } }\<close>\<close>

definition flagQuestions :: questions where
  "flagQuestions = [(''flag'', (plain (Literal (Bool False)))\<lparr>qtype := Str ''confirm''\<rparr>)]"

definition flagHost :: host where
  "flagHost = hostWith (Inr (Static flagQuestions))"

text \<open>
  \<^verbatim>\<open>{ c: {}, d: { default: 'loud', filter: v => v + '!' },
    e: { default: null, filter: v => '[' + v + ']' }, f: { default: 'x', filter: v => null } }\<close>
\<close>

definition exclaim :: "jsval \<Rightarrow> jserror + jsval" where
  "exclaim v = Inr (Str (ToString v @ ''!''))"

definition bracket :: "jsval \<Rightarrow> jserror + jsval" where
  "bracket v = Inr (Str (''['' @ ToString v @ '']''))"

definition toNull :: "jsval \<Rightarrow> jserror + jsval" where
  "toNull v = Inr Null"

definition filtered :: "jsval \<Rightarrow> (jsval \<Rightarrow> jserror + jsval) \<Rightarrow> question" where
  "filtered d g = (plain (Literal d))\<lparr>qfilter := Some g\<rparr>"

definition fallbackHost :: host where
  "fallbackHost = hostWith (Inr (Static
     [(''c'', plain (Literal Undefined)),
      (''d'', filtered (Str ''loud'') exclaim),
      (''e'', filtered Null bracket),
      (''f'', filtered (Str ''x'') toNull)]))"







definition run :: "bool \<Rightarrow> bool \<Rightarrow> command" where
  "run forced quiet =
     \<lparr>argv = \<lparr>positional = Str ''out'', dir = Undefined, force = forced, silent = quiet\<rparr>,
      cwd = [''home'']\<rparr>"

definition pngBytes :: string where
  "pngBytes = [CHR 0x89, CHR ''P'', CHR ''N'', CHR ''G'', CHR 0x00, CHR ''{'', CHR ''{'', CHR ''n'',
     CHR ''a'', CHR ''m'', CHR ''e'', CHR ''}'', CHR ''}'']"

text \<open>A template of two files, a text and an image, and an empty target directory.\<close>

definition twoFiles :: world where
  "twoFiles =
     \<lparr>fsys = [([''tpl''], Dir), ([''tpl'', ''boilerplate''], Dir),
        ([''tpl'', ''boilerplate'', ''one.txt''], File ''Hello {{ name }}''),
        ([''tpl'', ''boilerplate'', ''logo.png''], File pngBytes),
        ([''home''], Dir), ([''home'', ''out''], Dir)],
      events = []\<rparr>"

text \<open>A template with two of the aliases of \<open>.gitignore\<close>.\<close>

definition twoAliases :: world where
  "twoAliases =
     \<lparr>fsys = [([''tpl''], Dir), ([''tpl'', ''boilerplate''], Dir),
        ([''tpl'', ''boilerplate'', ''gitignore''], File ''node_modules''),
        ([''tpl'', ''boilerplate'', ''_gitignore''], File ''coverage''),
        ([''home''], Dir), ([''home'', ''out''], Dir)],
      events = []\<rparr>"

text \<open>Target directories: missing, empty, in use, and a file of that name.\<close>

definition noTarget :: world where
  "noTarget = \<lparr>fsys = [([''home''], Dir)], events = []\<rparr>"

definition emptyTarget :: world where
  "emptyTarget = \<lparr>fsys = [([''home''], Dir), ([''home'', ''out''], Dir)], events = []\<rparr>"

definition usedTarget :: world where
  "usedTarget =
     \<lparr>fsys = [([''home''], Dir), ([''home'', ''out''], Dir),
        ([''home'', ''out'', ''.git''], Dir), ([''home'', ''out'', ''README.md''], File ''hello'')],
      events = []\<rparr>"

definition fileTarget :: world where
  "fileTarget = \<lparr>fsys = [([''home''], Dir), ([''home'', ''out''], File ''x'')], events = []\<rparr>"

section \<open>Properties of the placeholder walk\<close>

lemma matchBraces_Nil [simp]: "matchBraces [] = None"
  by (simp add: matchBraces_def)

lemma matchAt_Nil [simp]: "matchAt [] = None"
  by (simp add: matchAt_def)

lemma scan_Nil [simp]: "scan [] = []"
  by (simp add: scan.simps [of "[]"])

lemma scan_None: "matchAt (c # cs) = None \<Longrightarrow> scan (c # cs) = Lit c # scan cs"
  by (simp add: scan.simps [of "c # cs"])

lemma scan_Some: "matchAt s = Some (sk, b, k, rest) \<Longrightarrow> scan s = Match sk b k # scan rest"
  by (simp add: scan.simps [of s])

lemma class_facts [simp]:
  "\<not> isWordChar CHR ''{''" "\<not> isSpace CHR ''{''"
  "\<not> isWordChar CHR ''}''" "\<not> isSpace CHR ''}''"
  "\<not> isWordChar backslash" "\<not> isSpace backslash"
  "\<not> isWordChar CHR '' ''"
  by (simp_all add: isWordChar_def isSpace_def backslash_def)

lemma word_not_space: "isWordChar c \<Longrightarrow> \<not> isSpace c"
  by (auto simp: isWordChar_def isSpace_def Let_def)

lemma matchBraces_backslash [simp]: "matchBraces (backslash # s) = None"
  by (simp add: matchBraces_def backslash_def)

text \<open>The walk cuts the input into pieces and loses nothing.\<close>

lemma scan_text: "concat (map pieceText (scan s)) = s"
proof (induction s rule: scan.induct)
  case (1 s)
  show ?case
  proof (cases "matchAt s")
    case None
    with 1(1) show ?thesis by (cases s) (simp_all add: scan_None)
  next
    case (Some m)
    obtain sk b k rest where m: "m = (sk, b, k, rest)" by (cases m) auto
    with Some 1(2) [OF Some [unfolded m] refl refl refl] matchAt_Some [of s sk b k rest]
    show ?thesis by (simp add: scan_Some)
  qed
qed

subsection \<open>The matcher agrees with the grammar of the pattern\<close>

lemma span_all:
  "\<forall>c\<in>set xs. P c \<Longrightarrow> ys = [] \<or> \<not> P (hd ys) \<Longrightarrow>
   takeWhile P (xs @ ys) = xs \<and> dropWhile P (xs @ ys) = ys"
  by (induction xs) (auto simp: takeWhile_eq_Nil_iff dropWhile_eq_self_iff neq_Nil_conv)

lemma matchBraces_grammar:
  "matchBraces s = Some (b, k, rest) \<longleftrightarrow>
     (\<exists>sp1 sp2. b = ''{{'' @ sp1 @ k @ sp2 @ ''}}'' \<and> s = b @ rest \<and> k \<noteq> [] \<and>
        (\<forall>c\<in>set sp1. isSpace c) \<and> (\<forall>c\<in>set k. isWordChar c) \<and> (\<forall>c\<in>set sp2. isSpace c))"
  (is "?L \<longleftrightarrow> ?R")
proof
  assume L: ?L
  then obtain r where r: "stripPrefix ''{{'' s = Some r"
    by (auto simp: matchBraces_def split: option.splits)
  define r1 where "r1 = dropWhile isSpace r"
  define r2 where "r2 = dropWhile isWordChar r1"
  define r3 where "r3 = dropWhile isSpace r2"
  from L r have k: "k = takeWhile isWordChar r1" "k \<noteq> []"
    and b: "b = ''{{'' @ takeWhile isSpace r @ k @ takeWhile isSpace r2 @ ''}}''"
    and rest: "stripPrefix ''}}'' r3 = Some rest"
    by (auto simp: matchBraces_def Let_def r1_def r2_def r3_def split: option.splits if_splits)
  have "r = takeWhile isSpace r @ r1" by (simp add: r1_def)
  also have "r1 = k @ r2" by (simp add: k r2_def)
  also have "r2 = takeWhile isSpace r2 @ r3" by (simp add: r3_def)
  also have "r3 = ''}}'' @ rest" using rest by (rule stripPrefix_Some)
  finally have "s = b @ rest" using stripPrefix_Some [OF r] b by simp
  moreover have "\<forall>c\<in>set (takeWhile isSpace r). isSpace c"
    "\<forall>c\<in>set (takeWhile isSpace r2). isSpace c" "\<forall>c\<in>set k. isWordChar c"
    by (auto simp: k dest: set_takeWhileD)
  ultimately show ?R using b k(2) by blast
next
  assume ?R
  then obtain sp1 sp2 where b: "b = ''{{'' @ sp1 @ k @ sp2 @ ''}}''" and s: "s = b @ rest"
    and k: "k \<noteq> []" "\<forall>c\<in>set k. isWordChar c"
    and sp: "\<forall>c\<in>set sp1. isSpace c" "\<forall>c\<in>set sp2. isSpace c"
    by blast
  define E where "E = ''}}'' @ rest"
  have r: "stripPrefix ''{{'' s = Some (sp1 @ k @ sp2 @ E)"
    by (simp add: s b E_def)
  have "\<not> isSpace (hd k)" using k by (cases k) (auto dest: word_not_space)
  with span_all [OF sp(1), of "k @ sp2 @ E"] k(1)
  have 1: "takeWhile isSpace (sp1 @ k @ sp2 @ E) = sp1"
    "dropWhile isSpace (sp1 @ k @ sp2 @ E) = k @ sp2 @ E"
    by simp_all
  have "\<not> isWordChar (hd (sp2 @ E))"
    using sp(2) by (cases sp2) (auto simp: E_def dest: word_not_space)
  with span_all [OF k(2), of "sp2 @ E"]
  have 2: "takeWhile isWordChar (k @ sp2 @ E) = k"
    "dropWhile isWordChar (k @ sp2 @ E) = sp2 @ E"
    by simp_all
  from span_all [OF sp(2), of E]
  have 3: "takeWhile isSpace (sp2 @ E) = sp2" "dropWhile isSpace (sp2 @ E) = E"
    by (simp_all add: E_def)
  have 4: "stripPrefix ''}}'' E = Some rest" by (simp add: E_def)
  show ?L
    unfolding matchBraces_def r by (simp add: Let_def 1 2 3 4 k(1) b)
qed

lemma placeholder_append: "placeholder T k \<Longrightarrow> matchBraces (T @ Q) = Some (T, k, Q)"
  unfolding placeholder_def matchBraces_grammar by auto

lemma placeholder_open: "placeholder T k \<Longrightarrow> \<exists>r. T = ''{{'' @ r"
  unfolding placeholder_def matchBraces_grammar by auto

subsection \<open>What follows a boundary does not change the walk before it\<close>

lemma takeWhile_stop: "X \<noteq> [] \<Longrightarrow> \<not> P (hd X) \<Longrightarrow> takeWhile P (r @ X) = takeWhile P r"
  by (induction r) (auto simp: takeWhile_eq_Nil_iff neq_Nil_conv)

lemma dropWhile_stop: "X \<noteq> [] \<Longrightarrow> \<not> P (hd X) \<Longrightarrow> dropWhile P (r @ X) = dropWhile P r @ X"
  by (induction r) (auto simp: dropWhile_eq_self_iff neq_Nil_conv)

lemma stripClose_stop:
  "X \<noteq> [] \<Longrightarrow> hd X \<noteq> CHR ''}'' \<Longrightarrow>
   stripPrefix ''}}'' (r @ X) = map_option (\<lambda>rest. rest @ X) (stripPrefix ''}}'' r)"
  by (cases r; cases "tl r"; cases X) auto

lemma matchBraces_boundary:
  assumes "boundary X" and "r \<noteq> []"
  shows "matchBraces (r @ X) = map_option (\<lambda>(b, k, rest). (b, k, rest @ X)) (matchBraces r)"
proof -
  from assms(1) obtain c cs where X: "X = c # cs"
    and c: "\<not> isSpace c" "\<not> isWordChar c" "c \<noteq> CHR ''}''"
    and open2: "c = CHR ''{'' \<Longrightarrow> \<exists>ds. cs = CHR ''{'' # ds"
    by (auto simp: boundary_def split: list.splits)
  show ?thesis
  proof (cases "stripPrefix ''{{'' r")
    case None
    then have "stripPrefix ''{{'' (r @ X) = None
        \<or> (\<exists>ds. stripPrefix ''{{'' (r @ X) = Some (CHR ''{'' # ds))"
      using assms(2) X open2 by (cases r; cases "tl r") (auto split: if_splits)
    then have "matchBraces (r @ X) = None"
      by (auto simp: matchBraces_def)
    with None show ?thesis by (simp add: matchBraces_def)
  next
    case (Some r')
    then have r: "r = ''{{'' @ r'" by (rule stripPrefix_Some)
    have sp: "stripPrefix ''{{'' (r @ X) = Some (r' @ X)" by (simp add: r)
    have hd: "X \<noteq> []" "\<not> isSpace (hd X)" "\<not> isWordChar (hd X)" "hd X \<noteq> CHR ''}''"
      using X c by simp_all
    show ?thesis
      unfolding matchBraces_def sp Some
      by (simp add: Let_def takeWhile_stop dropWhile_stop stripClose_stop hd
               split: option.splits)
  qed
qed

lemma matchAt_boundary:
  assumes "boundary X" and "P \<noteq> []" and "hd X = CHR ''{'' \<Longrightarrow> last P \<noteq> backslash"
  shows "matchAt (P @ X) = map_option (\<lambda>(sk, b, k, rest). (sk, b, k, rest @ X)) (matchAt P)"
proof (cases P)
  case Nil
  with assms(2) show ?thesis by simp
next
  case (Cons c r)
  show ?thesis
  proof (cases "c = backslash")
    case True
    show ?thesis
    proof (cases "r = []")
      case True
      with \<open>c = backslash\<close> Cons assms(3) have "hd X \<noteq> CHR ''{''" by auto
      then have "matchBraces X = None"
        using assms(1)
        by (cases X; cases "tl X") (auto simp: matchBraces_def boundary_def split: if_splits)
      with True \<open>c = backslash\<close> Cons show ?thesis
        by (simp add: matchAt_def)
    next
      case False
      from matchBraces_boundary [OF assms(1) False] True Cons show ?thesis
        by (cases "matchBraces r") (auto simp: matchAt_def split: option.splits)
    qed
  next
    case False
    from matchBraces_boundary [OF assms(1) assms(2)] False Cons show ?thesis
      by (cases "matchBraces (c # r)") (auto simp: matchAt_def split: option.splits)
  qed
qed

lemma scan_boundary:
  "boundary X \<Longrightarrow> (hd X = CHR ''{'' \<Longrightarrow> P = [] \<or> last P \<noteq> backslash) \<Longrightarrow>
   scan (P @ X) = scan P @ scan X"
proof (induction P rule: scan.induct)
  case (1 s)
  show ?case
  proof (cases "s = []")
    case True
    then show ?thesis by simp
  next
    case False
    with 1(4) have lastP: "hd X = CHR ''{'' \<Longrightarrow> last s \<noteq> backslash" by auto
    note mb = matchAt_boundary [OF 1(3) False lastP]
    show ?thesis
    proof (cases "matchAt s")
      case None
      from False obtain c cs where s: "s = c # cs" by (cases s) auto
      have "hd X = CHR ''{'' \<Longrightarrow> cs = [] \<or> last cs \<noteq> backslash"
        using lastP s by (cases cs) auto
      with 1(1) [OF None s 1(3)] have "scan (cs @ X) = scan cs @ scan X" by simp
      moreover have "matchAt (s @ X) = None" using mb None by simp
      ultimately show ?thesis
        using None s by (simp add: scan_None)
    next
      case (Some m)
      obtain sk b k rest where m: "m = (sk, b, k, rest)" by (cases m) auto
      from Some m have s: "s = b @ rest" by (auto dest: matchAt_Some)
      have "hd X = CHR ''{'' \<Longrightarrow> rest = [] \<or> last rest \<noteq> backslash"
        using lastP s by (cases "rest = []") auto
      with 1(2) [OF Some [unfolded m] refl refl refl 1(3)]
      have "scan (rest @ X) = scan rest @ scan X" by simp
      moreover have "matchAt (s @ X) = Some (sk, b, k, rest @ X)" using mb Some m by simp
      ultimately show ?thesis
        using Some m by (simp add: scan_Some)
    qed
  qed
qed

lemma boundary_escaped: "boundary (backslash # Y)"
  by (simp add: boundary_def) (simp add: backslash_def)

lemma boundary_placeholder: "placeholder T k \<Longrightarrow> boundary (T @ Q)"
  by (auto simp: boundary_def dest!: placeholder_open)

lemma scan_escaped:
  "placeholder T k \<Longrightarrow>
   scan (backslash # T @ Q) = Match (Some [backslash]) (backslash # T) k # scan Q"
  by (rule scan_Some) (simp add: matchAt_def placeholder_append)

lemma scan_placeholder:
  assumes "placeholder T k"
  shows "scan (T @ Q) = Match None T k # scan Q"
proof -
  from placeholder_open [OF assms] have "stripPrefix [backslash] (T @ Q) = None"
    by (auto simp: backslash_def)
  then have "matchAt (T @ Q) = Some (None, T, k, Q)"
    by (simp add: matchAt_def placeholder_append [OF assms])
  then show ?thesis by (rule scan_Some)
qed

lemma settled_fixed:
  assumes "settled S s"
  shows "replaceTemplate s S = s"
proof -
  from assms have "map (replacer S) (scan s) = map pieceText (scan s)"
    by (intro map_cong refl) (auto simp: settled_def list_all_iff replacer_def split: piece.splits)
  then have "concat (map (replacer S) (scan s)) = concat (map pieceText (scan s))"
    by (rule arg_cong)
  then show ?thesis by (simp add: replaceTemplate_def scan_text)
qed

text \<open>A text without an opening brace has no placeholder and is copied as it is.\<close>

lemma scan_no_brace: "CHR ''{'' \<notin> set s \<Longrightarrow> scan s = map Lit s"
proof (induction s)
  case Nil
  then show ?case by simp
next
  case (Cons c cs)
  then have "matchBraces (c # cs) = None" "matchBraces cs = None"
    by (auto simp: matchBraces_def split: option.splits list.splits dest!: stripPrefix_Some)
  then have "matchAt (c # cs) = None"
    by (auto simp: matchAt_def split: option.splits if_splits)
  with Cons show ?case by (simp add: scan_None)
qed

lemma replaceTemplate_no_brace: "CHR ''{'' \<notin> set s \<Longrightarrow> replaceTemplate s S = s"
  by (simp add: replaceTemplate_def scan_no_brace replacer_def comp_def)

lemma fileMapping_keys:
  "map_of fileMapping file = Some v \<Longrightarrow>
   file \<in> {''gitignore'', ''_gitignore'', ''_.gitignore'', ''_package.json'', ''_.eslintignore'',
     ''_.npmignore''}"
  by (auto simp: fileMapping_def split: if_splits)

lemma destName_unmapped:
  "map_of fileMapping file = None \<Longrightarrow> file \<notin> set objectPrototype \<Longrightarrow>
   destName file S = replaceTemplate file S"
  by (simp add: destName_def getProp_def jsOr_def)

lemma objectPrototype_no_slash: "n \<in> set objectPrototype \<Longrightarrow> CHR ''/'' \<notin> set n"
  by (auto simp: objectPrototype_def)

lemma matchAt_plain:
  "c \<noteq> CHR ''{'' \<Longrightarrow> c \<noteq> backslash \<Longrightarrow> matchAt (c # s) = None"
  by (auto simp: matchAt_def matchBraces_def split: option.splits if_splits)

lemma scan_plain_prefix:
  "CHR ''{'' \<notin> set X \<Longrightarrow> backslash \<notin> set X \<Longrightarrow> scan (X @ Y) = map Lit X @ scan Y"
proof (induction X)
  case Nil
  then show ?case by simp
next
  case (Cons c X)
  then have "c \<noteq> CHR ''{''" "c \<noteq> backslash" by auto
  then have "matchAt (c # X @ Y) = None" by (rule matchAt_plain)
  with Cons show ?case by (simp add: scan_None)
qed







lemma matchAt_no_backslash:
  assumes "backslash \<notin> set s" and "matchAt s = Some (sk, b, k, rest)"
  shows "sk = None \<and> placeholder b k \<and> s = b @ rest"
proof -
  from assms(1) have "stripPrefix [backslash] s = None"
    by (cases s) auto
  with assms(2) have m: "matchBraces s = Some (b, k, rest)" and sk: "sk = None"
    by (auto simp: matchAt_def)
  from m have "matchBraces b = Some (b, k, [])"
    unfolding matchBraces_grammar by auto
  with m sk show ?thesis
    by (auto simp: placeholder_def dest: matchBraces_Some)
qed

text \<open>
  A class of inputs whose result is settled: the text has no backslash, each of its opening
  braces belongs to a placeholder, and no value of the scope holds an opening brace or a
  backslash.
\<close>

lemma plain_values_settle:
  assumes "backslash \<notin> set C"
    and "Lit CHR ''{'' \<notin> set (scan C)"
    and "\<forall>v\<in>ran S. CHR ''{'' \<notin> set (ToString v) \<and> backslash \<notin> set (ToString v)"
  shows "settled S (replaceTemplate C S)"
  using assms(1,2)
proof (induction C rule: scan.induct)
  case (1 s)
  show ?case
  proof (cases "matchAt s")
    case None
    show ?thesis
    proof (cases s)
      case Nil
      then show ?thesis by (simp add: replaceTemplate_def settled_def)
    next
      case (Cons c cs)
      with None have sc: "scan s = Lit c # scan cs" by (simp add: scan_None)
      with "1.prems" Cons have c: "c \<noteq> CHR ''{''" "c \<noteq> backslash"
        and cs: "backslash \<notin> set cs" "Lit CHR ''{'' \<notin> set (scan cs)"
        by auto
      from "1.IH"(1) [OF None Cons cs] have ih: "settled S (replaceTemplate cs S)" .
      have "replaceTemplate s S = c # replaceTemplate cs S"
        by (simp add: replaceTemplate_def sc replacer_def)
      moreover have "scan (c # replaceTemplate cs S) = Lit c # scan (replaceTemplate cs S)"
        using c by (simp add: scan_None matchAt_plain)
      ultimately show ?thesis using ih by (simp add: settled_def)
    qed
  next
    case (Some m)
    obtain sk b k rest where m: "m = (sk, b, k, rest)" by (cases m) auto
    from matchAt_no_backslash [OF "1.prems"(1) Some [unfolded m]]
    have sk: "sk = None" and pb: "placeholder b k" and s: "s = b @ rest" by blast+
    from Some m have sc: "scan s = Match sk b k # scan rest" by (simp add: scan_Some)
    with "1.prems" s have r: "backslash \<notin> set rest" "Lit CHR ''{'' \<notin> set (scan rest)"
      by auto
    from "1.IH"(2) [OF Some [unfolded m] refl refl refl r]
    have ih: "settled S (replaceTemplate rest S)" .
    show ?thesis
    proof (cases "S k")
      case None
      then have "replaceTemplate s S = b @ replaceTemplate rest S"
        by (simp add: replaceTemplate_def sc sk replacer_def)
      with scan_placeholder [OF pb, of "replaceTemplate rest S"] ih None show ?thesis
        by (simp add: settled_def)
    next
      case (Some v)
      then have "replaceTemplate s S = ToString v @ replaceTemplate rest S"
        by (simp add: replaceTemplate_def sc sk replacer_def)
      moreover from Some assms(3) have "CHR ''{'' \<notin> set (ToString v)" "backslash \<notin> set (ToString v)"
        by (auto simp: ran_def)
      ultimately show ?thesis using ih
        by (auto simp: scan_plain_prefix settled_def list_all_iff)
    qed
  qed
qed

section \<open>Substitution\<close>

text \<open>
  C3. An escaped placeholder, a backslash right before a placeholder token \<open>T\<close>, is kept
  as the token without the backslash and is not substituted, wherever it stands in the input
  and whatever the scope holds: the text \<open>P\<close> before it and the text \<open>Q\<close> behind it are
  substituted as they are on their own.
\<close>

theorem escaped_placeholder_kept:
  assumes "placeholder T k"
  shows "replaceTemplate (P @ backslash # T @ Q) S = replaceTemplate P S @ T @ replaceTemplate Q S"
  using scan_boundary [OF boundary_escaped, of "T @ Q" P] scan_escaped [OF assms, of Q]
  by (simp add: replaceTemplate_def replacer_def boundary_escaped backslash_def)

theorem escaped_placeholder_kept_witness:
  "placeholder ''{{ x }}'' ''x'' \<and>
   replaceTemplate (backslash # ''{{ x }}'') [''x'' \<mapsto> Str ''v''] = ''{{ x }}''"
proof -
  have p: "placeholder ''{{ x }}'' ''x''" by code_simp
  from escaped_placeholder_kept [OF p, of "[]" "[]" "[''x'' \<mapsto> Str ''v'']"] p
  show ?thesis by (simp add: replaceTemplate_def)
qed

text \<open>
  C4. A placeholder token \<open>T\<close> that is not escaped (the text before it does not end in a
  backslash) and whose name the scope does not define is kept whole, braces included; it is
  not replaced by the empty string.
\<close>

theorem unknown_placeholder_kept:
  assumes "placeholder T k" and "S k = None" and "P = [] \<or> last P \<noteq> backslash"
  shows "replaceTemplate (P @ T @ Q) S = replaceTemplate P S @ T @ replaceTemplate Q S"
  using scan_boundary [OF boundary_placeholder [OF assms(1)], of Q P]
    scan_placeholder [OF assms(1), of Q] assms(2,3)
  by (simp add: replaceTemplate_def replacer_def)

theorem unknown_placeholder_kept_witness:
  "placeholder ''{{ x }}'' ''x'' \<and> (Map.empty :: scope) ''x'' = None \<and>
   replaceTemplate ''{{ x }}'' Map.empty = ''{{ x }}''"
proof -
  have p: "placeholder ''{{ x }}'' ''x''" by code_simp
  from unknown_placeholder_kept [OF p, of Map.empty "[]" "[]"] p
  show ?thesis by (simp add: replaceTemplate_def)
qed

text \<open>
  The counterpart: a placeholder that is not escaped and whose name the scope defines is
  replaced by the value, turned into a string.
\<close>

lemma known_placeholder_replaced:
  assumes "placeholder T k" and "S k = Some v" and "P = [] \<or> last P \<noteq> backslash"
  shows "replaceTemplate (P @ T @ Q) S = replaceTemplate P S @ ToString v @ replaceTemplate Q S"
  using scan_boundary [OF boundary_placeholder [OF assms(1)], of Q P]
    scan_placeholder [OF assms(1), of Q] assms(2,3)
  by (simp add: replaceTemplate_def replacer_def)

text \<open>
  C2, as stated, fails: substitution is one pass and a value is inserted without being
  scanned, so a value that is itself a placeholder is resolved by a second pass only. With
  \<open>a\<close> bound to the text \<open>{{ b }}\<close> and \<open>b\<close> to \<open>v\<close>, the input \<open>{{ a }}\<close>, which has no
  escape sequence, gives \<open>{{ b }}\<close> after one pass and \<open>v\<close> after two.
\<close>

theorem second_pass_changes_result:
  "\<not> containsEscape ''{{ a }}'' \<and>
   replaceTemplate
     (replaceTemplate ''{{ a }}'' [''a'' \<mapsto> Str ''{{ b }}'', ''b'' \<mapsto> Str ''v''])
     [''a'' \<mapsto> Str ''{{ b }}'', ''b'' \<mapsto> Str ''v'']
   \<noteq> replaceTemplate ''{{ a }}'' [''a'' \<mapsto> Str ''{{ b }}'', ''b'' \<mapsto> Str ''v'']"
  by code_simp

text \<open>
  C2, amended. When the result of the first pass is settled, that is, the walk over it finds
  no escaped placeholder and no placeholder whose name the scope defines, a second pass
  returns it unchanged. The result is settled in particular when the input has no backslash,
  each of its opening braces belongs to a placeholder, and no value of the scope holds an
  opening brace or a backslash.
\<close>

theorem second_pass_settled:
  "(settled S (replaceTemplate C S) \<longrightarrow>
      replaceTemplate (replaceTemplate C S) S = replaceTemplate C S) \<and>
   (backslash \<notin> set C \<and> Lit CHR ''{'' \<notin> set (scan C) \<and>
    (\<forall>v\<in>ran S. CHR ''{'' \<notin> set (ToString v) \<and> backslash \<notin> set (ToString v)) \<longrightarrow>
      settled S (replaceTemplate C S))"
proof (intro conjI impI)
  assume "settled S (replaceTemplate C S)"
  then show "replaceTemplate (replaceTemplate C S) S = replaceTemplate C S"
    by (rule settled_fixed)
next
  assume "backslash \<notin> set C \<and> Lit CHR ''{'' \<notin> set (scan C) \<and>
    (\<forall>v\<in>ran S. CHR ''{'' \<notin> set (ToString v) \<and> backslash \<notin> set (ToString v))"
  then show "settled S (replaceTemplate C S)"
    using plain_values_settle [of C S] by blast
qed

theorem second_pass_settled_witness:
  "backslash \<notin> set ''Hello {{ name }}, {{ other }}'' \<and>
   Lit CHR ''{'' \<notin> set (scan ''Hello {{ name }}, {{ other }}'') \<and>
   ran [''name'' \<mapsto> Str ''World''] = {Str ''World''} \<and>
   CHR ''{'' \<notin> set (ToString (Str ''World'')) \<and> backslash \<notin> set (ToString (Str ''World'')) \<and>
   replaceTemplate ''Hello {{ name }}, {{ other }}'' [''name'' \<mapsto> Str ''World'']
     = ''Hello World, {{ other }}'' \<and>
   replaceTemplate ''Hello World, {{ other }}'' [''name'' \<mapsto> Str ''World'']
     = ''Hello World, {{ other }}''"
proof -
  have c: "backslash \<notin> set ''Hello {{ name }}, {{ other }}''"
    "Lit CHR ''{'' \<notin> set (scan ''Hello {{ name }}, {{ other }}'')"
    by code_simp+
  have v: "\<forall>v\<in>ran [''name'' \<mapsto> Str ''World''].
      CHR ''{'' \<notin> set (ToString v) \<and> backslash \<notin> set (ToString v)"
    by (simp add: backslash_def)
  have e: "replaceTemplate ''Hello {{ name }}, {{ other }}'' [''name'' \<mapsto> Str ''World'']
     = ''Hello World, {{ other }}''"
    by code_simp
  from second_pass_settled [of "[''name'' \<mapsto> Str ''World'']" "''Hello {{ name }}, {{ other }}''"]
    c v
  have "replaceTemplate
      (replaceTemplate ''Hello {{ name }}, {{ other }}'' [''name'' \<mapsto> Str ''World''])
      [''name'' \<mapsto> Str ''World'']
    = replaceTemplate ''Hello {{ name }}, {{ other }}'' [''name'' \<mapsto> Str ''World'']"
    by blast
  with c e show ?thesis by (simp add: backslash_def)
qed

section \<open>Destination names\<close>




text \<open>
  C10. The alias table is looked up with the whole path relative to the template, not with
  the base name: a file inside a directory, such as \<open>conf/gitignore\<close>, is never renamed.
  It is written below the target directory under its own relative path, with its
  placeholders substituted.
\<close>

theorem nested_alias_not_renamed:
  "destName (folder @ CHR ''/'' # base) S = replaceTemplate (folder @ CHR ''/'' # base) S \<and>
   destination targetDir S (folder @ CHR ''/'' # base)
     = path_join targetDir (replaceTemplate (folder @ CHR ''/'' # base) S)"
proof -
  have "map_of fileMapping (folder @ CHR ''/'' # base) = None"
  proof (cases "map_of fileMapping (folder @ CHR ''/'' # base)")
    case None
    then show ?thesis .
  next
    case (Some v)
    from fileMapping_keys [OF this] have "CHR ''/'' \<notin> set (folder @ CHR ''/'' # base)"
      by (elim insertE emptyE) (simp_all only: set_simps, simp_all)
    then show ?thesis by simp
  qed
  moreover have "folder @ CHR ''/'' # base \<notin> set objectPrototype"
    using objectPrototype_no_slash [of "folder @ CHR ''/'' # base"] by auto
  ultimately show ?thesis by (simp add: destName_unmapped destination_def)
qed

theorem nested_alias_not_renamed_witness:
  "destName ''conf/gitignore'' Map.empty = ''conf/gitignore'' \<and>
   destination [''home'', ''out''] Map.empty ''conf/gitignore''
     = [''home'', ''out'', ''conf'', ''gitignore''] \<and>
   destName ''gitignore'' Map.empty = ''.gitignore''"
proof -
  have "destName ''gitignore'' Map.empty = ''.gitignore''" by code_simp
  moreover have "path_join [''home'', ''out''] ''conf/gitignore''
      = [''home'', ''out'', ''conf'', ''gitignore'']"
    by code_simp
  ultimately show ?thesis
    using nested_alias_not_renamed [of "''conf''" "''gitignore''" Map.empty "[''home'', ''out'']"]
    by (simp add: replaceTemplate_no_brace)
qed

section \<open>Properties of the file system\<close>

lemma nodeAt_update:
  "k \<noteq> [] \<Longrightarrow> nodeAt (AList.update k v fs) p = (if p = k then Some v else nodeAt fs p)"
  by (simp add: nodeAt_def update_conv')

lemma filesOf_update_Dir:
  "k \<noteq> [] \<Longrightarrow> nodeAt fs k = None \<Longrightarrow> filesOf (AList.update k Dir fs) = filesOf fs"
  by (rule ext) (simp add: filesOf_def nodeAt_update)

text \<open>Making directories leaves the regular files as they are.\<close>

lemma filesOf_mkdirpFrom:
  "mkdirpFrom fs pre ss = Inr fs' \<Longrightarrow> filesOf fs' = filesOf fs"
proof (induction ss arbitrary: fs pre)
  case Nil
  then show ?case by simp
next
  case (Cons s ss)
  show ?case
  proof (cases "nodeAt fs (pre @ [s])")
    case None
    with Cons.prems have "mkdirpFrom (AList.update (pre @ [s]) Dir fs) (pre @ [s]) ss = Inr fs'"
      by simp
    from Cons.IH [OF this] None show ?thesis
      by (simp add: filesOf_update_Dir)
  next
    case (Some n)
    with Cons show ?thesis by (cases n) auto
  qed
qed

lemma filesOf_mkdirp: "mkdirp_sync fs p = Inr fs' \<Longrightarrow> filesOf fs' = filesOf fs"
  unfolding mkdirp_sync_def by (rule filesOf_mkdirpFrom)

lemma made_mkdirpFrom:
  "mkdirpFrom fs pre ss = Inr fs' \<Longrightarrow> ss \<noteq> [] \<Longrightarrow> nodeAt fs' (pre @ ss) = Some Dir"
proof (induction ss arbitrary: fs pre)
  case Nil
  then show ?case by simp
next
  case (Cons s ss)
  show ?case
  proof (cases "nodeAt fs (pre @ [s])")
    case None
    with Cons.prems have m: "mkdirpFrom (AList.update (pre @ [s]) Dir fs) (pre @ [s]) ss = Inr fs'"
      by simp
    show ?thesis
    proof (cases "ss = []")
      case True
      with m have "fs' = AList.update (pre @ [s]) Dir fs" by simp
      with True show ?thesis by (simp add: nodeAt_update)
    next
      case False
      from Cons.IH [OF m False] show ?thesis by simp
    qed
  next
    case (Some n)
    show ?thesis
    proof (cases n)
      case (File d)
      with Some Cons.prems show ?thesis by simp
    next
      case Dir
      with Some Cons.prems have m: "mkdirpFrom fs (pre @ [s]) ss = Inr fs'" by simp
      show ?thesis
      proof (cases "ss = []")
        case True
        with m Some Dir show ?thesis by simp
      next
        case False
        from Cons.IH [OF m False] show ?thesis by simp
      qed
    qed
  qed
qed

lemma mkdirp_isDirectory: "mkdirp_sync fs p = Inr fs' \<Longrightarrow> isDirectory fs' p"
  unfolding mkdirp_sync_def isDirectory_def
  using made_mkdirpFrom [of fs "[]" p fs'] by (cases "p = []") (auto simp: nodeAt_def)

text \<open>Making a directory succeeds when no part of its path is a file.\<close>

lemma mkdirpFrom_succeeds:
  "(\<forall>n. 0 < n \<and> n \<le> length ss \<longrightarrow> \<not> isFile fs (pre @ take n ss)) \<Longrightarrow>
   \<exists>fs'. mkdirpFrom fs pre ss = Inr fs'"
proof (induction ss arbitrary: fs pre)
  case Nil
  then show ?case by simp
next
  case (Cons s ss)
  from Cons.prems [rule_format, of 1] have nf: "\<not> isFile fs (pre @ [s])" by simp
  show ?case
  proof (cases "nodeAt fs (pre @ [s])")
    case None
    have "\<forall>n. 0 < n \<and> n \<le> length ss \<longrightarrow>
        \<not> isFile (AList.update (pre @ [s]) Dir fs) ((pre @ [s]) @ take n ss)"
    proof (intro allI impI)
      fix n assume n: "0 < n \<and> n \<le> length ss"
      with Cons.prems [rule_format, of "Suc n"] have "\<not> isFile fs (pre @ s # take n ss)" by simp
      moreover have "pre @ s # take n ss \<noteq> pre @ [s]" using n by (cases ss) auto
      ultimately show "\<not> isFile (AList.update (pre @ [s]) Dir fs) ((pre @ [s]) @ take n ss)"
        by (simp add: isFile_def nodeAt_update)
    qed
    from Cons.IH [OF this] None show ?thesis by simp
  next
    case (Some nd)
    with nf have nd: "nd = Dir" by (cases nd) (auto simp: isFile_def)
    have "\<forall>n. 0 < n \<and> n \<le> length ss \<longrightarrow> \<not> isFile fs ((pre @ [s]) @ take n ss)"
    proof (intro allI impI)
      fix n assume n: "0 < n \<and> n \<le> length ss"
      with Cons.prems [rule_format, of "Suc n"] show "\<not> isFile fs ((pre @ [s]) @ take n ss)"
        by simp
    qed
    from Cons.IH [OF this] Some nd show ?thesis by simp
  qed
qed

lemma mkdirp_succeeds:
  "(\<forall>n. 0 < n \<and> n \<le> length p \<longrightarrow> \<not> isFile fs (take n p)) \<Longrightarrow> \<exists>fs'. mkdirp_sync fs p = Inr fs'"
  unfolding mkdirp_sync_def using mkdirpFrom_succeeds [of p fs "[]"] by simp

lemma filesOf_write:
  assumes "writeFileSync fs p d = Inr fs'"
  shows "filesOf fs' = (filesOf fs)(p \<mapsto> d)"
proof -
  from assms have "p \<noteq> []"
    by (auto simp: writeFileSync_def nodeAt_def split: if_splits)
  moreover from assms have "fs' = AList.update p (File d) fs"
    by (auto simp: writeFileSync_def split: if_splits option.splits node.splits)
  ultimately show ?thesis
    by (intro ext) (simp add: filesOf_def nodeAt_update)
qed

lemma filesOf_read: "readFileSync fs p = Inr c \<longleftrightarrow> filesOf fs p = Some c"
  by (auto simp: readFileSync_def filesOf_def split: option.splits node.splits)

section \<open>Properties of the walk over the template\<close>

text \<open>One file of the walk: one read, one logged line, one file written.\<close>

lemma processFile_step:
  assumes "processFile h src targetDir locals (Inr w) f = Inr w'"
  shows "\<exists>content. filesOf (fsys w) (path_join src f) = Some content \<and>
     filesOf (fsys w') = (filesOf (fsys w))(destination targetDir locals f \<mapsto>
        rendered h locals (render (path_join src f)) content) \<and>
     events w' = events w @ [Log (WriteTo (destination targetDir locals f))]"
proof -
  from assms obtain content where r: "readFileSync (fsys w) (path_join src f) = Inr content"
    by (auto simp: processFile_def Let_def split: sum.splits)
  from assms r obtain fs1
    where m: "mkdirp_sync (fsys w) (path_dirname (destination targetDir locals f)) = Inr fs1"
    by (auto simp: processFile_def Let_def log_def split: sum.splits)
  from assms r m obtain fs2
    where wr: "writeFileSync fs1 (destination targetDir locals f)
        (rendered h locals (render (path_join src f)) content) = Inr fs2"
      and w': "w' = (log (WriteTo (destination targetDir locals f)) w)\<lparr>fsys := fs2\<rparr>"
    by (auto simp: processFile_def Let_def log_def rendered_def split: sum.splits)
  from filesOf_write [OF wr] filesOf_mkdirp [OF m] r w' show ?thesis
    by (simp add: filesOf_read log_def)
qed

lemma processFile_Inl [simp]: "processFile h src targetDir locals (Inl e) f = Inl e"
  by (simp add: processFile_def)

lemma walk_Inl [simp]: "foldl (processFile h src targetDir locals) (Inl e) files = Inl e"
  by (induction files) simp_all

lemma walk_files:
  "foldl (processFile h src targetDir locals) (Inr w) files = Inr w' \<Longrightarrow>
   materialize h src targetDir locals files (filesOf (fsys w)) = Some (filesOf (fsys w')) \<and>
   dom (filesOf (fsys w')) = dom (filesOf (fsys w)) \<union> destination targetDir locals ` set files \<and>
   events w' = events w @ map (\<lambda>f. Log (WriteTo (destination targetDir locals f))) files"
proof (induction files arbitrary: w)
  case Nil
  then show ?case by simp
next
  case (Cons f files)
  show ?case
  proof (cases "processFile h src targetDir locals (Inr w) f")
    case (Inl e)
    with Cons.prems show ?thesis by simp
  next
    case (Inr w1)
    with Cons.prems have "foldl (processFile h src targetDir locals) (Inr w1) files = Inr w'"
      by simp
    from Cons.IH [OF this]
    have ih: "materialize h src targetDir locals files (filesOf (fsys w1)) = Some (filesOf (fsys w'))"
      "dom (filesOf (fsys w')) = dom (filesOf (fsys w1)) \<union> destination targetDir locals ` set files"
      "events w' = events w1 @ map (\<lambda>f. Log (WriteTo (destination targetDir locals f))) files"
      by blast+
    from processFile_step [OF Inr] obtain content
      where c: "filesOf (fsys w) (path_join src f) = Some content"
        and f1: "filesOf (fsys w1) = (filesOf (fsys w))(destination targetDir locals f \<mapsto>
          rendered h locals (render (path_join src f)) content)"
        and e1: "events w1 = events w @ [Log (WriteTo (destination targetDir locals f))]"
      by blast
    have "materialize h src targetDir locals (f # files) (filesOf (fsys w)) = Some (filesOf (fsys w'))"
      using ih(1) by (simp add: f1 c)
    moreover have "dom (filesOf (fsys w')) =
        dom (filesOf (fsys w)) \<union> destination targetDir locals ` set (f # files)"
      unfolding ih(2) f1 by simp
    moreover have "events w' =
        events w @ map (\<lambda>f. Log (WriteTo (destination targetDir locals f))) (f # files)"
      by (simp add: ih(3) e1)
    ultimately show ?thesis by blast
  qed
qed

lemma askForVariable_fsys:
  "askForVariable h cmd targetDir templateDir w = Inr (locals, w1) \<Longrightarrow> fsys w1 = fsys w"
  by (auto simp: askForVariable_def log_def Let_def split: sum.splits if_splits jserror.splits)

lemma processFiles_walk:
  assumes "processFiles h cmd targetDir templateDir w = Inr (files, w')"
  shows "\<exists>locals w1. askForVariable h cmd targetDir templateDir w = Inr (locals, w1) \<and>
     fsys w1 = fsys w \<and>
     files = glob_sync (fsys w) (path_join templateDir ''boilerplate'') \<and>
     foldl (processFile h (path_join templateDir ''boilerplate'') targetDir locals) (Inr w1) files
       = Inr w'"
proof -
  from assms obtain locals w1
    where a: "askForVariable h cmd targetDir templateDir w = Inr (locals, w1)"
    by (auto simp: processFiles_def Let_def split: sum.splits)
  note fs = askForVariable_fsys [OF a]
  from assms a fs show ?thesis
    by (auto simp: processFiles_def Let_def split: sum.splits)
qed

text \<open>
  What \<open>materialize\<close> leaves: nothing changes off the destinations, and where the
  destinations differ from each other and from the sources, each destination holds what its
  source renders to.
\<close>

lemma materialize_frame:
  "materialize h src targetDir locals files m = Some m' \<Longrightarrow>
   p \<notin> destination targetDir locals ` set files \<Longrightarrow> m' p = m p"
proof (induction files arbitrary: m)
  case Nil
  then show ?case by simp
next
  case (Cons f files)
  from Cons.prems(1) obtain c where c: "m (path_join src f) = Some c"
    and rest: "materialize h src targetDir locals files
      (m(destination targetDir locals f \<mapsto> rendered h locals (render (path_join src f)) c)) = Some m'"
    by (auto split: option.splits)
  from Cons.IH [OF rest] Cons.prems(2) show ?case by simp
qed

lemma materialize_content:
  assumes "materialize h src targetDir locals files m = Some m'"
    and "distinct (map (destination targetDir locals) files)"
    and "\<forall>f\<in>set files. \<forall>g\<in>set files. destination targetDir locals f \<noteq> path_join src g"
  shows "\<forall>f\<in>set files. \<exists>c. m (path_join src f) = Some c \<and>
     m' (destination targetDir locals f) = Some (rendered h locals (render (path_join src f)) c)"
  using assms
proof (induction files arbitrary: m)
  case Nil
  then show ?case by simp
next
  case (Cons f files)
  from Cons.prems(1) obtain c where c: "m (path_join src f) = Some c"
    and rest: "materialize h src targetDir locals files
      (m(destination targetDir locals f \<mapsto> rendered h locals (render (path_join src f)) c)) = Some m'"
    by (auto split: option.splits)
  from Cons.prems(2) have d: "distinct (map (destination targetDir locals) files)"
    and nf: "destination targetDir locals f \<notin> destination targetDir locals ` set files"
    by auto
  from Cons.prems(3)
  have s: "\<forall>f\<in>set files. \<forall>g\<in>set files. destination targetDir locals f \<noteq> path_join src g"
    and sf: "\<forall>g\<in>set files. destination targetDir locals f \<noteq> path_join src g"
    by auto
  have "m' (destination targetDir locals f) = Some (rendered h locals (render (path_join src f)) c)"
    using materialize_frame [OF rest nf] by simp
  with c have here: "\<exists>c. m (path_join src f) = Some c \<and>
     m' (destination targetDir locals f) = Some (rendered h locals (render (path_join src f)) c)"
    by blast
  have "\<exists>c. m (path_join src g) = Some c \<and>
     m' (destination targetDir locals g) = Some (rendered h locals (render (path_join src g)) c)"
    if g: "g \<in> set files" for g
  proof -
    from Cons.IH [OF rest d s] g obtain c'
      where "(m(destination targetDir locals f \<mapsto> rendered h locals (render (path_join src f)) c))
          (path_join src g) = Some c'"
        and "m' (destination targetDir locals g) = Some (rendered h locals (render (path_join src g)) c')"
      by blast
    moreover from sf g have "destination targetDir locals f \<noteq> path_join src g" by blast
    ultimately show ?thesis by auto
  qed
  with here show ?case by auto
qed

section \<open>Properties of silent resolution\<close>

lemma silentStep_Inl [simp]: "silentStep (Inl e) kq = Inl e"
  by (simp add: silentStep_def)

lemma silent_Inl [simp]: "foldl silentStep (Inl e) qs = Inl e"
  by (induction qs) simp_all

lemma jsOr_empty: "jsOr v (Str []) = orEmpty v"
  by (cases v) (simp_all add: jsOr_def orEmpty_def falsy_def)

lemma silentStep_value:
  "silentStep (Inr sofar) (key, q) =
     (case specSilentValue q sofar of Inl err \<Rightarrow> Inl err | Inr v \<Rightarrow> Inr (sofar(key \<mapsto> v)))"
  by (simp add: silentStep_def specSilentValue_def jsOr_empty
      split: dflt.splits sum.splits option.splits)

lemma silent_fold: "foldl silentStep (Inr sofar) qs = specSilentScope qs sofar"
proof (induction qs arbitrary: sofar)
  case Nil
  then show ?case by simp
next
  case (Cons kq qs)
  obtain key q where kq: "kq = (key, q)" by (cases kq) auto
  show ?case
  proof (cases "specSilentValue q sofar")
    case (Inl e)
    then show ?thesis by (simp add: kq silentStep_value)
  next
    case (Inr v)
    then have "foldl silentStep (Inr sofar) (kq # qs) = foldl silentStep (Inr (sofar(key \<mapsto> v))) qs"
      by (simp add: kq silentStep_value)
    also have "\<dots> = specSilentScope qs (sofar(key \<mapsto> v))"
      by (rule Cons.IH)
    finally show ?thesis by (simp add: kq Inr)
  qed
qed

lemma glob_members:
  "f \<in> set (glob_sync fs base) \<longleftrightarrow> (\<exists>q. q \<noteq> [] \<and> isFile fs (base @ q) \<and> f = joinSegs q)"
proof
  assume "f \<in> set (glob_sync fs base)"
  then obtain p where p: "length base < length p" "take (length base) p = base" "isFile fs p"
    and f: "f = joinSegs (drop (length base) p)"
    by (auto simp: glob_sync_def)
  from p(1,2) have "p = base @ drop (length base) p" "drop (length base) p \<noteq> []"
    by (metis append_take_drop_id, simp)
  with p(3) f show "\<exists>q. q \<noteq> [] \<and> isFile fs (base @ q) \<and> f = joinSegs q"
    by metis
next
  assume "\<exists>q. q \<noteq> [] \<and> isFile fs (base @ q) \<and> f = joinSegs q"
  then obtain q where q: "q \<noteq> []" "isFile fs (base @ q)" "f = joinSegs q" by blast
  from q(1,2) have "base @ q \<in> set (map fst fs)"
    by (auto simp: isFile_def nodeAt_def split: option.splits node.splits dest!: map_of_SomeD)
      (metis fst_conv image_eqI)
  with q show "f \<in> set (glob_sync fs base)"
    by (auto simp: glob_sync_def intro!: image_eqI [where x = "base @ q"])
qed

lemma destName_gitignore:
  "destName ''gitignore'' S = ''.gitignore''" "destName ''_gitignore'' S = ''.gitignore''"
  by (simp_all add: destName_def getProp_def jsOr_def fileMapping_def replaceTemplate_no_brace)

section \<open>Materialisation\<close>

text \<open>
  C1. A run of \<open>processFiles\<close> that returns has enumerated every file below
  \<open>templateDir/boilerplate\<close>, at any depth and dotfiles too, and has written, for each of
  them in turn, one destination file: with the decoded text and its placeholders
  substituted against the scope when the classifier takes the bytes for text, with the bytes
  of the source otherwise. The regular files it leaves are those that \<open>materialize\<close>
  computes from the regular files it found; where the destinations differ from each other
  and from the sources, the destination of every enumerated file holds what its source
  renders to.
\<close>

theorem materialization_writes:
  assumes "processFiles h cmd targetDir templateDir w = Inr (files, w')"
  shows "\<exists>locals w1. askForVariable h cmd targetDir templateDir w = Inr (locals, w1) \<and>
     (\<forall>q. q \<noteq> [] \<and> isFile (fsys w) (path_join templateDir ''boilerplate'' @ q)
        \<longrightarrow> joinSegs q \<in> set files) \<and>
     materialize h (path_join templateDir ''boilerplate'') targetDir locals files (filesOf (fsys w))
       = Some (filesOf (fsys w')) \<and>
     (distinct (map (destination targetDir locals) files) \<and>
      (\<forall>f\<in>set files. \<forall>g\<in>set files.
         destination targetDir locals f \<noteq> path_join (path_join templateDir ''boilerplate'') g)
      \<longrightarrow> (\<forall>f\<in>set files. \<exists>content.
             filesOf (fsys w) (path_join (path_join templateDir ''boilerplate'') f) = Some content \<and>
             filesOf (fsys w') (destination targetDir locals f) =
               Some (rendered h locals
                 (render (path_join (path_join templateDir ''boilerplate'') f)) content)))"
proof -
  from processFiles_walk [OF assms] obtain locals w1
    where a: "askForVariable h cmd targetDir templateDir w = Inr (locals, w1)"
      and fs: "fsys w1 = fsys w"
      and files: "files = glob_sync (fsys w) (path_join templateDir ''boilerplate'')"
      and walk: "foldl (processFile h (path_join templateDir ''boilerplate'') targetDir locals)
          (Inr w1) files = Inr w'"
    by blast
  from walk_files [OF walk] fs
  have m: "materialize h (path_join templateDir ''boilerplate'') targetDir locals files
      (filesOf (fsys w)) = Some (filesOf (fsys w'))"
    by simp
  have e: "\<forall>q. q \<noteq> [] \<and> isFile (fsys w) (path_join templateDir ''boilerplate'' @ q)
      \<longrightarrow> joinSegs q \<in> set files"
    unfolding files glob_members by blast
  have c: "distinct (map (destination targetDir locals) files) \<and>
      (\<forall>f\<in>set files. \<forall>g\<in>set files.
         destination targetDir locals f \<noteq> path_join (path_join templateDir ''boilerplate'') g)
      \<longrightarrow> (\<forall>f\<in>set files. \<exists>content.
             filesOf (fsys w) (path_join (path_join templateDir ''boilerplate'') f) = Some content \<and>
             filesOf (fsys w') (destination targetDir locals f) =
               Some (rendered h locals
                 (render (path_join (path_join templateDir ''boilerplate'') f)) content))"
    using materialize_content [OF m] by blast
  from a e m c show ?thesis by blast
qed

theorem materialization_writes_witness:
  "\<exists>w' locals.
     processFiles worldHost (run False True) [''home'', ''out''] [''tpl''] twoFiles
       = Inr ([''one.txt'', ''logo.png''], w') \<and>
     locals = [''name'' \<mapsto> Str ''World''] \<and>
     materialize worldHost [''tpl'', ''boilerplate''] [''home'', ''out''] locals
       [''one.txt'', ''logo.png''] (filesOf (fsys twoFiles)) = Some (filesOf (fsys w')) \<and>
     filesOf (fsys twoFiles) [''tpl'', ''boilerplate'', ''one.txt''] = Some ''Hello {{ name }}'' \<and>
     filesOf (fsys w') [''home'', ''out'', ''one.txt''] = Some ''Hello World'' \<and>
     filesOf (fsys twoFiles) [''tpl'', ''boilerplate'', ''logo.png''] = Some pngBytes \<and>
     filesOf (fsys w') [''home'', ''out'', ''logo.png''] = Some pngBytes"
proof -
  have "outputsOf [''home'', ''out'']
      (processFiles worldHost (run False True) [''home'', ''out''] [''tpl''] twoFiles)
    = Inr ([''one.txt'', ''logo.png''], [''one.txt'', ''logo.png''])"
    by code_simp
  then obtain w'
    where p: "processFiles worldHost (run False True) [''home'', ''out''] [''tpl''] twoFiles
        = Inr ([''one.txt'', ''logo.png''], w')"
    by (auto simp: outputsOf_def split: sum.splits)
  have src: "path_join [''tpl''] ''boilerplate'' = [''tpl'', ''boilerplate'']"
    "path_join [''tpl'', ''boilerplate''] ''one.txt'' = [''tpl'', ''boilerplate'', ''one.txt'']"
    "path_join [''tpl'', ''boilerplate''] ''logo.png'' = [''tpl'', ''boilerplate'', ''logo.png'']"
    by code_simp+
  from materialization_writes [OF p, unfolded src] obtain locals w1
    where a: "askForVariable worldHost (run False True) [''home'', ''out''] [''tpl''] twoFiles
        = Inr (locals, w1)"
      and m: "materialize worldHost [''tpl'', ''boilerplate''] [''home'', ''out''] locals
        [''one.txt'', ''logo.png''] (filesOf (fsys twoFiles)) = Some (filesOf (fsys w'))"
      and c: "distinct (map (destination [''home'', ''out''] locals) [''one.txt'', ''logo.png'']) \<and>
        (\<forall>f\<in>set [''one.txt'', ''logo.png'']. \<forall>g\<in>set [''one.txt'', ''logo.png''].
           destination [''home'', ''out''] locals f \<noteq> path_join [''tpl'', ''boilerplate''] g)
        \<longrightarrow> (\<forall>f\<in>set [''one.txt'', ''logo.png'']. \<exists>content.
             filesOf (fsys twoFiles) (path_join [''tpl'', ''boilerplate''] f) = Some content \<and>
             filesOf (fsys w') (destination [''home'', ''out''] locals f) =
               Some (rendered worldHost locals (render (path_join [''tpl'', ''boilerplate''] f)) content))"
    by blast
  from a have l: "locals = [''name'' \<mapsto> Str ''World'']"
    by (auto simp: askForVariable_def loadQuestions_def worldHost_def hostWith_def nameDefault_def
        run_def plain_def truthyDefault_def silentStep_def jsOr_def Let_def
        split: sum.splits if_splits)
  have d: "destination [''home'', ''out''] [''name'' \<mapsto> Str ''World''] ''one.txt''
      = [''home'', ''out'', ''one.txt'']"
    "destination [''home'', ''out''] [''name'' \<mapsto> Str ''World''] ''logo.png''
      = [''home'', ''out'', ''logo.png'']"
    by code_simp+
  have s: "filesOf (fsys twoFiles) [''tpl'', ''boilerplate'', ''one.txt''] = Some ''Hello {{ name }}''"
    "filesOf (fsys twoFiles) [''tpl'', ''boilerplate'', ''logo.png''] = Some pngBytes"
    by code_simp+
  have r: "rendered worldHost [''name'' \<mapsto> Str ''World'']
      (render [''tpl'', ''boilerplate'', ''one.txt'']) ''Hello {{ name }}'' = ''Hello World''"
    "rendered worldHost [''name'' \<mapsto> Str ''World'']
      (render [''tpl'', ''boilerplate'', ''logo.png'']) pngBytes = pngBytes"
    by code_simp+
  from c [unfolded l] have "\<forall>f\<in>set [''one.txt'', ''logo.png'']. \<exists>content.
      filesOf (fsys twoFiles) (path_join [''tpl'', ''boilerplate''] f) = Some content \<and>
      filesOf (fsys w') (destination [''home'', ''out''] [''name'' \<mapsto> Str ''World''] f) =
        Some (rendered worldHost [''name'' \<mapsto> Str ''World'']
          (render (path_join [''tpl'', ''boilerplate''] f)) content)"
    by (simp add: d src)
  then have "filesOf (fsys w') [''home'', ''out'', ''one.txt''] = Some ''Hello World''"
    "filesOf (fsys w') [''home'', ''out'', ''logo.png''] = Some pngBytes"
    by (simp_all add: d src s r)
  with p l m s show ?thesis by blast
qed

text \<open>
  C9, as stated, fails: the alias table is many to one. A template that holds both
  \<open>gitignore\<close> and \<open>_gitignore\<close> has two input files, and the run leaves one output file,
  \<open>.gitignore\<close>, below the target directory.
\<close>

theorem aliases_share_one_output:
  "outputsOf [''home'', ''out'']
     (processFiles worldHost (run False True) [''home'', ''out''] [''tpl''] twoAliases)
   = Inr ([''gitignore'', ''_gitignore''], [''.gitignore''])"
  by code_simp

text \<open>
  C9, amended. The destination of an input is \<open>destination targetDir locals file\<close>: a
  function of the target directory, the scope and the relative path of the source (the alias
  table, then substitution), and not of the content. A run that returns has written to these
  destinations, in the order of the enumeration, and the regular files it leaves are those
  it found and the destinations: one output file for each destination path, which inputs
  with the same destination share.
\<close>

theorem destinations_written:
  assumes "processFiles h cmd targetDir templateDir w = Inr (files, w')"
  shows "\<exists>locals w1. askForVariable h cmd targetDir templateDir w = Inr (locals, w1) \<and>
     dom (filesOf (fsys w')) = dom (filesOf (fsys w)) \<union> destination targetDir locals ` set files \<and>
     events w' = events w1 @ map (\<lambda>f. Log (WriteTo (destination targetDir locals f))) files"
proof -
  from processFiles_walk [OF assms] obtain locals w1
    where a: "askForVariable h cmd targetDir templateDir w = Inr (locals, w1)"
      and fs: "fsys w1 = fsys w"
      and walk: "foldl (processFile h (path_join templateDir ''boilerplate'') targetDir locals)
          (Inr w1) files = Inr w'"
    by blast
  from walk_files [OF walk] a fs show ?thesis by simp
qed

theorem destinations_written_witness:
  "\<exists>w' locals.
     processFiles worldHost (run False True) [''home'', ''out''] [''tpl''] twoAliases
       = Inr ([''gitignore'', ''_gitignore''], w') \<and>
     destination [''home'', ''out''] locals ''gitignore'' = [''home'', ''out'', ''.gitignore''] \<and>
     destination [''home'', ''out''] locals ''_gitignore'' = [''home'', ''out'', ''.gitignore''] \<and>
     dom (filesOf (fsys w')) =
       dom (filesOf (fsys twoAliases)) \<union> {[''home'', ''out'', ''.gitignore'']}"
proof -
  have "outputsOf [''home'', ''out'']
     (processFiles worldHost (run False True) [''home'', ''out''] [''tpl''] twoAliases)
   = Inr ([''gitignore'', ''_gitignore''], [''.gitignore''])"
    by code_simp
  then obtain w'
    where p: "processFiles worldHost (run False True) [''home'', ''out''] [''tpl''] twoAliases
        = Inr ([''gitignore'', ''_gitignore''], w')"
    by (auto simp: outputsOf_def split: sum.splits)
  from destinations_written [OF p] obtain locals
    where d: "dom (filesOf (fsys w')) = dom (filesOf (fsys twoAliases)) \<union>
        destination [''home'', ''out''] locals ` set [''gitignore'', ''_gitignore'']"
    by blast
  have j: "path_join [''home'', ''out''] ''.gitignore'' = [''home'', ''out'', ''.gitignore'']"
    by code_simp
  have "destination [''home'', ''out''] locals ''gitignore'' = [''home'', ''out'', ''.gitignore'']"
    "destination [''home'', ''out''] locals ''_gitignore'' = [''home'', ''out'', ''.gitignore'']"
    by (simp_all add: destination_def destName_gitignore j)
  with d p show ?thesis by auto
qed

section \<open>Question resolution\<close>

text \<open>
  C6, as stated, fails: the empty string does not only stand in for a default that is
  missing. A question with the literal default \<^verbatim>\<open>false\<close> and no filter resolves to the
  empty string, where taking the literal default gives \<^verbatim>\<open>false\<close>.
\<close>

theorem false_default_becomes_empty:
  "silent (argv (run False True)) \<and>
   resolved ''flag''
     (askForVariable flagHost (run False True) [''home'', ''out''] [''tpl''] noTarget)
     = Some (Str []) \<and>
   statedResolved ''flag'' (statedSilentScope flagQuestions Map.empty) = Some (Bool False)"
  by (simp add: run_def resolved_def statedResolved_def askForVariable_def loadQuestions_def
      flagHost_def hostWith_def flagQuestions_def nameDefault_def plain_def silentStep_def
      jsOr_def statedSilentValue_def Let_def)

text \<open>
  C6, amended. In silent mode, with the questions loaded, \<open>askForVariable\<close> puts no question
  to the user: it logs two lines and returns the scope that \<open>specSilentScope\<close> computes,
  going through the questions in the order of the mapping. Each value is the default,
  called on the scope built so far when it is a function and taken as it is otherwise; the
  empty string takes its place when it is \<^verbatim>\<open>undefined\<close>, \<^verbatim>\<open>null\<close>, \<^verbatim>\<open>false\<close> or empty;
  the filter, when there is one, is applied to the outcome, and the empty string takes the
  place of its result in the same four cases.
\<close>

theorem silent_resolution:
  assumes "silent (argv cmd)" and "loadQuestions h cmd targetDir templateDir = Inr qs"
  shows "askForVariable h cmd targetDir templateDir w =
     (case specSilentScope qs Map.empty of
        Inl err \<Rightarrow> Inl err
      | Inr result \<Rightarrow>
          Inr (result, w\<lparr>events := events w @ [Log Collecting, Log (UseDefault result)]\<rparr>))"
  using assms
  by (simp add: askForVariable_def silent_fold log_def Let_def split: sum.splits)

theorem silent_resolution_witness:
  "silent (argv (run False True)) \<and>
   (\<exists>qs. loadQuestions abHost (run False True) [''home'', ''out''] [''tpl''] = Inr qs \<and>
      map fst qs = [''a'', ''b'']) \<and>
   askForVariable abHost (run False True) [''home'', ''out''] [''tpl''] noTarget =
     Inr ([''a'' \<mapsto> Str ''base'', ''b'' \<mapsto> Str ''basex''],
          noTarget\<lparr>events := [Log Collecting,
             Log (UseDefault [''a'' \<mapsto> Str ''base'', ''b'' \<mapsto> Str ''basex''])]\<rparr>) \<and>
   (\<exists>qs. loadQuestions fallbackHost (run False True) [''home'', ''out''] [''tpl''] = Inr qs \<and>
      map fst qs = [''c'', ''d'', ''e'', ''f'']) \<and>
   askForVariable fallbackHost (run False True) [''home'', ''out''] [''tpl''] noTarget =
     Inr ([''c'' \<mapsto> Str [], ''d'' \<mapsto> Str ''loud!'', ''e'' \<mapsto> Str ''[]'', ''f'' \<mapsto> Str []],
          noTarget\<lparr>events := [Log Collecting,
             Log (UseDefault
               [''c'' \<mapsto> Str [], ''d'' \<mapsto> Str ''loud!'', ''e'' \<mapsto> Str ''[]'',
                ''f'' \<mapsto> Str []])]\<rparr>)"
proof -
  define qs where "qs =
     [(''a'', plain (Literal (Str ''base''))),
      (''b'', plain (Derived (\<lambda>sc. Inr (Str (ToString (case sc ''a'' of Some v \<Rightarrow> v | None \<Rightarrow> Undefined) @ ''x'')))))]"
  define rs where "rs =
     [(''c'', plain (Literal Undefined)),
      (''d'', filtered (Str ''loud'') exclaim),
      (''e'', filtered Null bracket),
      (''f'', filtered (Str ''x'') toNull)]"
  have s: "silent (argv (run False True))" by (simp add: run_def)
  have l: "loadQuestions abHost (run False True) [''home'', ''out''] [''tpl''] = Inr qs"
    by (simp add: loadQuestions_def abHost_def hostWith_def nameDefault_def qs_def)
  have v: "specSilentScope qs Map.empty = Inr [''a'' \<mapsto> Str ''base'', ''b'' \<mapsto> Str ''basex'']"
    by (simp add: qs_def specSilentValue_def plain_def orEmpty_def falsy_def)
  have l': "loadQuestions fallbackHost (run False True) [''home'', ''out''] [''tpl''] = Inr rs"
    by (simp add: loadQuestions_def fallbackHost_def hostWith_def nameDefault_def rs_def)
  have v': "specSilentScope rs Map.empty =
      Inr [''c'' \<mapsto> Str [], ''d'' \<mapsto> Str ''loud!'', ''e'' \<mapsto> Str ''[]'', ''f'' \<mapsto> Str []]"
    by (simp add: rs_def specSilentValue_def plain_def filtered_def exclaim_def bracket_def
        toNull_def orEmpty_def falsy_def)
  have d: "foldl silentStep (Inr Map.empty) rs =
      Inr [''c'' \<mapsto> Str [], ''d'' \<mapsto> Str ''loud!'', ''e'' \<mapsto> Str ''[]'', ''f'' \<mapsto> Str []]"
    by (simp add: rs_def silentStep_def jsOr_def plain_def filtered_def exclaim_def bracket_def
        toNull_def)
  have 1: "askForVariable abHost (run False True) [''home'', ''out''] [''tpl''] noTarget =
     Inr ([''a'' \<mapsto> Str ''base'', ''b'' \<mapsto> Str ''basex''],
          noTarget\<lparr>events := [Log Collecting,
             Log (UseDefault [''a'' \<mapsto> Str ''base'', ''b'' \<mapsto> Str ''basex''])]\<rparr>)"
    using silent_resolution [OF s l, of noTarget] v by (simp add: noTarget_def)
  have 2: "askForVariable fallbackHost (run False True) [''home'', ''out''] [''tpl''] noTarget =
     Inr ([''c'' \<mapsto> Str [], ''d'' \<mapsto> Str ''loud!'', ''e'' \<mapsto> Str ''[]'', ''f'' \<mapsto> Str []],
          noTarget\<lparr>events := [Log Collecting,
             Log (UseDefault
               [''c'' \<mapsto> Str [], ''d'' \<mapsto> Str ''loud!'', ''e'' \<mapsto> Str ''[]'',
                ''f'' \<mapsto> Str []])]\<rparr>)"
    using silent_resolution [OF s l', of noTarget] v' d by (simp add: noTarget_def)
  from l have 3: "\<exists>qs. loadQuestions abHost (run False True) [''home'', ''out''] [''tpl''] = Inr qs \<and>
      map fst qs = [''a'', ''b'']"
    by (simp add: qs_def)
  from l' have 4: "\<exists>qs. loadQuestions fallbackHost (run False True) [''home'', ''out''] [''tpl''] = Inr qs \<and>
      map fst qs = [''c'', ''d'', ''e'', ''f'']"
    by (simp add: rs_def)
  from s 1 2 3 4 show ?thesis by blast
qed




section \<open>The target directory\<close>

lemma validate_missing:
  assumes "\<not> existsSync (fsys w) d"
    and "\<forall>n. 0 < n \<and> n \<le> length d \<longrightarrow> \<not> isFile (fsys w) (take n d)"
  shows "\<exists>fs'. mkdirp_sync (fsys w) d = Inr fs' \<and> isDirectory fs' d \<and>
     validate forced d w = Inr (Valid, w\<lparr>fsys := fs'\<rparr>)"
proof -
  from mkdirp_succeeds [OF assms(2)] obtain fs' where "mkdirp_sync (fsys w) d = Inr fs'" ..
  with assms(1) mkdirp_isDirectory [OF this] show ?thesis
    by (simp add: validate_def)
qed

lemma validate_empty:
  "isDirectory (fsys w) d \<Longrightarrow> filter visible (readdirSync (fsys w) d) = [] \<Longrightarrow>
   validate forced d w = Inr (Valid, w)"
  by (simp add: validate_def existsSync_def isDirectory_def)

lemma validate_in_use:
  "isDirectory (fsys w) d \<Longrightarrow> filter visible (readdirSync (fsys w) d) \<noteq> [] \<Longrightarrow>
   validate forced d w =
     (if forced then Inr (Valid, w\<lparr>events := events w @ [Log (Override d)]\<rparr>)
      else Inr (Invalid (NotEmpty d (filter visible (readdirSync (fsys w) d))), w))"
  by (simp add: validate_def existsSync_def isDirectory_def Let_def log_def)

lemma validate_file:
  "isFile (fsys w) d \<Longrightarrow> validate forced d w = Inr (Invalid (AlreadyFile d), w)"
  by (auto simp: validate_def existsSync_def isDirectory_def isFile_def
      split: option.splits node.splits)

text \<open>
  C8. Let \<open>d\<close> be the directory the command line asks for. When \<open>d\<close> does not exist (and
  no part of its path is a file, so that it can be made), \<open>validate\<close> makes it and succeeds;
  when \<open>d\<close> is a directory without a visible entry, \<open>validate\<close> succeeds; in both cases
  \<open>getTargetDirectory\<close> returns \<open>d\<close> whatever the user would type, without asking. When \<open>d\<close>
  is a directory with a visible entry, \<open>validate\<close> fails without \<open>--force\<close>, and then
  \<open>getTargetDirectory\<close> asks and waits for an answer; with \<open>--force\<close> it succeeds, logs that
  the directory will be overridden, and nothing is asked. When \<open>d\<close> is a file, \<open>validate\<close>
  fails with and without \<open>--force\<close>.
\<close>

theorem target_directory_validation:
  "(\<not> existsSync (fsys w) (requested cmd) \<and>
    (\<forall>n. 0 < n \<and> n \<le> length (requested cmd) \<longrightarrow> \<not> isFile (fsys w) (take n (requested cmd)))
    \<longrightarrow> (\<exists>fs'. isDirectory fs' (requested cmd) \<and>
           validate (force (argv cmd)) (requested cmd) w = Inr (Valid, w\<lparr>fsys := fs'\<rparr>) \<and>
           getTargetDirectory cmd typed w =
             Some (Inr (requested cmd, w\<lparr>fsys := fs', events := events w @ [Log (TargetDir (requested cmd))]\<rparr>)))) \<and>
   (isDirectory (fsys w) (requested cmd) \<and>
    filter visible (readdirSync (fsys w) (requested cmd)) = []
    \<longrightarrow> validate (force (argv cmd)) (requested cmd) w = Inr (Valid, w) \<and>
        getTargetDirectory cmd typed w =
          Some (Inr (requested cmd, w\<lparr>events := events w @ [Log (TargetDir (requested cmd))]\<rparr>))) \<and>
   (isDirectory (fsys w) (requested cmd) \<and>
    filter visible (readdirSync (fsys w) (requested cmd)) \<noteq> [] \<and> force (argv cmd)
    \<longrightarrow> validate (force (argv cmd)) (requested cmd) w
          = Inr (Valid, w\<lparr>events := events w @ [Log (Override (requested cmd))]\<rparr>) \<and>
        getTargetDirectory cmd typed w =
          Some (Inr (requested cmd,
            w\<lparr>events := events w @
              [Log (Override (requested cmd)), Log (TargetDir (requested cmd))]\<rparr>))) \<and>
   (isDirectory (fsys w) (requested cmd) \<and>
    filter visible (readdirSync (fsys w) (requested cmd)) \<noteq> [] \<and> \<not> force (argv cmd)
    \<longrightarrow> validate (force (argv cmd)) (requested cmd) w
          = Inr (Invalid (NotEmpty (requested cmd)
                (filter visible (readdirSync (fsys w) (requested cmd)))), w) \<and>
        getTargetDirectory cmd [] w = None) \<and>
   (isFile (fsys w) (requested cmd)
    \<longrightarrow> validate True (requested cmd) w = Inr (Invalid (AlreadyFile (requested cmd)), w) \<and>
        validate False (requested cmd) w = Inr (Invalid (AlreadyFile (requested cmd)), w) \<and>
        getTargetDirectory cmd [] w = None)"
proof (intro conjI impI)
  assume "\<not> existsSync (fsys w) (requested cmd) \<and>
    (\<forall>n. 0 < n \<and> n \<le> length (requested cmd) \<longrightarrow> \<not> isFile (fsys w) (take n (requested cmd)))"
  then obtain fs' where "isDirectory fs' (requested cmd)"
    "validate (force (argv cmd)) (requested cmd) w = Inr (Valid, w\<lparr>fsys := fs'\<rparr>)"
    using validate_missing [of w "requested cmd" "force (argv cmd)"] by blast
  then show "\<exists>fs'. isDirectory fs' (requested cmd) \<and>
           validate (force (argv cmd)) (requested cmd) w = Inr (Valid, w\<lparr>fsys := fs'\<rparr>) \<and>
           getTargetDirectory cmd typed w =
             Some (Inr (requested cmd, w\<lparr>fsys := fs', events := events w @ [Log (TargetDir (requested cmd))]\<rparr>))"
    by (intro exI [of _ fs']) (simp add: getTargetDirectory_def Let_def log_def)
next
  assume a: "isDirectory (fsys w) (requested cmd) \<and>
    filter visible (readdirSync (fsys w) (requested cmd)) = []"
  then show "validate (force (argv cmd)) (requested cmd) w = Inr (Valid, w)"
    by (simp add: validate_empty)
  with a show "getTargetDirectory cmd typed w =
      Some (Inr (requested cmd, w\<lparr>events := events w @ [Log (TargetDir (requested cmd))]\<rparr>))"
    by (simp add: getTargetDirectory_def Let_def log_def)
next
  assume a: "isDirectory (fsys w) (requested cmd) \<and>
    filter visible (readdirSync (fsys w) (requested cmd)) \<noteq> [] \<and> force (argv cmd)"
  then show v: "validate (force (argv cmd)) (requested cmd) w
      = Inr (Valid, w\<lparr>events := events w @ [Log (Override (requested cmd))]\<rparr>)"
    by (simp add: validate_in_use)
  then show "getTargetDirectory cmd typed w =
      Some (Inr (requested cmd, w\<lparr>events := events w @
        [Log (Override (requested cmd)), Log (TargetDir (requested cmd))]\<rparr>))"
    by (simp add: getTargetDirectory_def Let_def log_def)
next
  assume a: "isDirectory (fsys w) (requested cmd) \<and>
    filter visible (readdirSync (fsys w) (requested cmd)) \<noteq> [] \<and> \<not> force (argv cmd)"
  then show v: "validate (force (argv cmd)) (requested cmd) w
      = Inr (Invalid (NotEmpty (requested cmd)
            (filter visible (readdirSync (fsys w) (requested cmd)))), w)"
    by (simp add: validate_in_use)
  then show "getTargetDirectory cmd [] w = None"
    by (simp add: getTargetDirectory_def Let_def log_def)
next
  assume a: "isFile (fsys w) (requested cmd)"
  then show "validate True (requested cmd) w = Inr (Invalid (AlreadyFile (requested cmd)), w)"
    "validate False (requested cmd) w = Inr (Invalid (AlreadyFile (requested cmd)), w)"
    by (simp_all add: validate_file)
  from a have "validate (force (argv cmd)) (requested cmd) w
      = Inr (Invalid (AlreadyFile (requested cmd)), w)"
    by (rule validate_file)
  then show "getTargetDirectory cmd [] w = None"
    by (simp add: getTargetDirectory_def Let_def log_def)
qed

theorem target_directory_validation_witness:
  "requested (run False True) = [''home'', ''out''] \<and>
   \<not> existsSync (fsys noTarget) [''home'', ''out''] \<and>
   (\<exists>fs'. isDirectory fs' [''home'', ''out''] \<and>
      getTargetDirectory (run False True) [] noTarget =
        Some (Inr ([''home'', ''out''],
          noTarget\<lparr>fsys := fs', events := [Log (TargetDir [''home'', ''out''])]\<rparr>))) \<and>
   isDirectory (fsys emptyTarget) [''home'', ''out''] \<and>
   getTargetDirectory (run False True) [] emptyTarget =
     Some (Inr ([''home'', ''out''], emptyTarget\<lparr>events := [Log (TargetDir [''home'', ''out''])]\<rparr>)) \<and>
   filter visible (readdirSync (fsys usedTarget) [''home'', ''out'']) = [''README.md''] \<and>
   getTargetDirectory (run True True) [] usedTarget =
     Some (Inr ([''home'', ''out''],
       usedTarget\<lparr>events :=
         [Log (Override [''home'', ''out'']), Log (TargetDir [''home'', ''out''])]\<rparr>)) \<and>
   validate False [''home'', ''out''] usedTarget =
     Inr (Invalid (NotEmpty [''home'', ''out''] [''README.md'']), usedTarget) \<and>
   getTargetDirectory (run False True) [] usedTarget = None \<and>
   isFile (fsys fileTarget) [''home'', ''out''] \<and>
   validate True [''home'', ''out''] fileTarget =
     Inr (Invalid (AlreadyFile [''home'', ''out'']), fileTarget) \<and>
   getTargetDirectory (run True True) [] fileTarget = None"
proof -
  have r: "requested (run False True) = [''home'', ''out'']"
    "requested (run True True) = [''home'', ''out'']"
    by code_simp+
  have f: "force (argv (run True True))" "\<not> force (argv (run False True))"
    by (simp_all add: run_def)
  have missing: "\<not> existsSync (fsys noTarget) [''home'', ''out'']" by code_simp
  have "\<not> isFile (fsys noTarget) (take n [''home'', ''out''])" for n
    by (cases n; cases "n - 1") (simp_all add: isFile_def nodeAt_def noTarget_def)
  then have parts: "\<forall>n. 0 < n \<and> n \<le> length [''home'', ''out'']
      \<longrightarrow> \<not> isFile (fsys noTarget) (take n [''home'', ''out''])"
    by blast
  have empty: "isDirectory (fsys emptyTarget) [''home'', ''out'']"
    "filter visible (readdirSync (fsys emptyTarget) [''home'', ''out'']) = []"
    by code_simp+
  have used: "isDirectory (fsys usedTarget) [''home'', ''out'']"
    "filter visible (readdirSync (fsys usedTarget) [''home'', ''out'']) = [''README.md'']"
    by code_simp+
  have isfile: "isFile (fsys fileTarget) [''home'', ''out'']" by code_simp
  have ev: "events noTarget = []" "events emptyTarget = []" "events usedTarget = []"
    by (simp_all add: noTarget_def emptyTarget_def usedTarget_def)
  note t = target_directory_validation [where typed = "[]", unfolded r]
  from t [where cmd = "run False True" and w = noTarget, unfolded r] missing parts
  have "\<exists>fs'. isDirectory fs' [''home'', ''out''] \<and>
      getTargetDirectory (run False True) [] noTarget =
        Some (Inr ([''home'', ''out''],
          noTarget\<lparr>fsys := fs',
            events := events noTarget @ [Log (TargetDir [''home'', ''out''])]\<rparr>))"
    by blast
  then have 1: "\<exists>fs'. isDirectory fs' [''home'', ''out''] \<and>
      getTargetDirectory (run False True) [] noTarget =
        Some (Inr ([''home'', ''out''],
          noTarget\<lparr>fsys := fs', events := [Log (TargetDir [''home'', ''out''])]\<rparr>))"
    by (simp add: ev)
  from t [where cmd = "run False True" and w = emptyTarget, unfolded r] empty ev
  have 2: "getTargetDirectory (run False True) [] emptyTarget =
     Some (Inr ([''home'', ''out''], emptyTarget\<lparr>events := [Log (TargetDir [''home'', ''out''])]\<rparr>))"
    by simp
  from t [where cmd = "run True True" and w = usedTarget, unfolded r] used f ev
  have 3: "getTargetDirectory (run True True) [] usedTarget =
     Some (Inr ([''home'', ''out''],
       usedTarget\<lparr>events :=
         [Log (Override [''home'', ''out'']), Log (TargetDir [''home'', ''out''])]\<rparr>))"
    by simp
  from t [where cmd = "run False True" and w = usedTarget, unfolded r] used f
  have 4: "validate False [''home'', ''out''] usedTarget =
     Inr (Invalid (NotEmpty [''home'', ''out''] [''README.md'']), usedTarget)"
    "getTargetDirectory (run False True) [] usedTarget = None"
    by simp_all
  from t [where cmd = "run True True" and w = fileTarget, unfolded r] isfile
  have 5: "validate True [''home'', ''out''] fileTarget =
     Inr (Invalid (AlreadyFile [''home'', ''out'']), fileTarget)"
    "getTargetDirectory (run True True) [] fileTarget = None"
    by simp_all
  from r(1) missing 1 empty(1) 2 used(2) 3 4 isfile 5 show ?thesis by blast
qed

end
